theory Spec2Isabelle
  imports Complex_Main "HOL-Library.Sublist"
begin

section \<open>Time-of-day parsing: \<open>_time_to_seconds\<close>\<close>

text \<open>
  A schedule session is a JSON object. A key of it is absent (\<open>None\<close> at the
  \<open>option\<close> level), holds JSON null (\<open>PyNone\<close>) or holds a string. Characters
  are read as code points below 256.
\<close>

datatype py_value = PyNone | PyStr string

text \<open>
  \<open>str.split(sep)\<close> for a one-character separator: the pieces between the
  occurrences of the separator, empty pieces kept; the empty string gives one empty piece.
\<close>

fun py_split :: "char \<Rightarrow> string \<Rightarrow> string list" where
  "py_split sep [] = [[]]"
| "py_split sep (c # cs) =
     (if c = sep then [] # py_split sep cs
      else (case py_split sep cs of
              [] \<Rightarrow> [[c]]
            | w # ws \<Rightarrow> (c # w) # ws))"

text \<open>
  \<open>int(text)\<close> in base 10: white space is stripped at both ends, then an optional
  sign, then a non-empty run of decimal digits in which single underscores may stand
  between two digits. Anything else raises ValueError, here \<open>None\<close>. (CPython also
  refuses a literal longer than its digit limit; the limit is not modelled, so every
  failure of the model is a failure of CPython.)
\<close>

definition py_isspace :: "char \<Rightarrow> bool" where
  "py_isspace c = (c \<in> set [CHR 0x09, CHR 0x0A, CHR 0x0B, CHR 0x0C, CHR 0x0D, CHR 0x20,
                              CHR 0x85, CHR 0xA0])"

definition is_digit :: "char \<Rightarrow> bool" where
  "is_digit c = (c \<in> set ''0123456789'')"

definition digit_val :: "char \<Rightarrow> int" where
  "digit_val c = int (of_char c) - 48"

definition py_strip :: "string \<Rightarrow> string" where
  "py_strip s = rev (dropWhile py_isspace (rev (dropWhile py_isspace s)))"

fun parse_digits :: "int \<Rightarrow> string \<Rightarrow> int option" where
  "parse_digits acc [] = Some acc"
| "parse_digits acc [c] = (if is_digit c then Some (acc * 10 + digit_val c) else None)"
| "parse_digits acc (c # d # cs) =
     (if is_digit c then parse_digits (acc * 10 + digit_val c) (d # cs)
      else if c = CHR ''_'' \<and> is_digit d then parse_digits (acc * 10 + digit_val d) cs
      else None)"

definition parse_unsigned :: "string \<Rightarrow> int option" where
  "parse_unsigned s =
     (case s of
        [] \<Rightarrow> None
      | d # ds \<Rightarrow> if is_digit d then parse_digits (digit_val d) ds else None)"

definition py_int :: "string \<Rightarrow> int option" where
  "py_int s =
     (case py_strip s of
        [] \<Rightarrow> None
      | c # cs \<Rightarrow>
          if c = CHR ''-'' then map_option uminus (parse_unsigned cs)
          else if c = CHR ''+'' then parse_unsigned cs
          else parse_unsigned (c # cs))"

text \<open>
  \<open>_time_to_seconds\<close>: \<open>hour, minute = map(int, time_str.split(':'))\<close> unpacks
  exactly two pieces and converts both; every exception (a piece that is no integer,
  fewer or more than two pieces, \<open>None.split\<close>) is caught by the bare \<open>except\<close>,
  which returns 0.
\<close>

definition time_to_seconds :: "py_value \<Rightarrow> int" where
  "time_to_seconds time_str =
     (case time_str of
        PyNone \<Rightarrow> 0
      | PyStr s \<Rightarrow>
          (case py_split (CHR '':'') s of
             [a, b] \<Rightarrow>
               (case py_int a of
                  None \<Rightarrow> 0
                | Some h \<Rightarrow>
                    (case py_int b of
                       None \<Rightarrow> 0
                     | Some m \<Rightarrow> h * 3600 + m * 60))
           | _ \<Rightarrow> 0))"

section \<open>The schedule resolver\<close>

record session =
  start_time :: "py_value option"
  end_time :: "py_value option"
  program_id :: "py_value option"

text \<open>
  \<open>StationSchedule.sessions\<close> is a dictionary from lower-case day names to session
  lists; a schedule whose dictionary is null or empty is the empty map here (both make
  \<open>_get_current_session\<close> return \<open>None\<close> at its first test).
\<close>

record station_schedule =
  sessions :: "string \<rightharpoonup> session list"

text \<open>
  What the code reads of \<open>datetime.now(nairobi_tz)\<close>: the lower-case day name and
  the time of day.
\<close>

record wall_clock =
  day_name :: string
  hour :: nat
  minute :: nat
  second :: nat

definition current_seconds :: "wall_clock \<Rightarrow> int" where
  "current_seconds now = int (hour now) * 3600 + int (minute now) * 60 + int (second now)"

text \<open>Python truthiness of \<open>session.get(key)\<close>: absent, null and the empty string are false.\<close>

fun truthy :: "py_value option \<Rightarrow> bool" where
  "truthy None = False"
| "truthy (Some PyNone) = False"
| "truthy (Some (PyStr s)) = (s \<noteq> [])"

text \<open>\<open>session.get(key)\<close> without a default returns \<open>None\<close> for an absent key.\<close>

definition get_or_none :: "py_value option \<Rightarrow> py_value" where
  "get_or_none v = (case v of None \<Rightarrow> PyNone | Some x \<Rightarrow> x)"

text \<open>\<open>session.get(key, default)\<close>: the default only replaces an absent key.\<close>

definition get_default :: "py_value option \<Rightarrow> string \<Rightarrow> py_value" where
  "get_default v d = (case v of None \<Rightarrow> PyStr d | Some x \<Rightarrow> x)"

text \<open>The test of one session in the loop of \<open>_get_current_session\<close>.\<close>

definition session_matches :: "int \<Rightarrow> session \<Rightarrow> bool" where
  "session_matches cur s =
     (if truthy (start_time s) \<and> truthy (end_time s) then
        (let start_seconds = time_to_seconds (get_or_none (start_time s));
             end_seconds = time_to_seconds (get_or_none (end_time s));
             end_seconds = (if end_seconds \<le> start_seconds then end_seconds + 24 * 3600
                            else end_seconds)
         in start_seconds \<le> cur \<and> cur \<le> end_seconds)
      else False)"

fun scan_sessions :: "int \<Rightarrow> session list \<Rightarrow> session option" where
  "scan_sessions cur [] = None"
| "scan_sessions cur (s # ss) =
     (if session_matches cur s then Some s else scan_sessions cur ss)"

definition get_current_session :: "station_schedule option \<Rightarrow> wall_clock \<Rightarrow> session option" where
  "get_current_session schedule now =
     (case schedule of
        None \<Rightarrow> None
      | Some sch \<Rightarrow>
          (case sessions sch (day_name now) of
             None \<Rightarrow> None
           | Some day_sessions \<Rightarrow> scan_sessions (current_seconds now) day_sessions))"

definition should_start_recording :: "session \<Rightarrow> wall_clock \<Rightarrow> bool" where
  "should_start_recording s now =
     (current_seconds now \<ge> time_to_seconds (get_default (start_time s) ''00:00''))"

definition should_stop_recording :: "session \<Rightarrow> wall_clock \<Rightarrow> bool" where
  "should_stop_recording s now =
     (current_seconds now \<ge> time_to_seconds (get_default (end_time s) ''23:59''))"

subsection \<open>The resolver as the specification words it\<close>

text \<open>
  The specification's reading of a session's interval: the end is moved 24 hours on
  when it is not after the start.
\<close>

definition extended_end :: "session \<Rightarrow> int" where
  "extended_end s =
     (let st = time_to_seconds (get_or_none (start_time s));
          en = time_to_seconds (get_or_none (end_time s))
      in if en \<le> st then en + 24 * 3600 else en)"

definition in_half_open :: "int \<Rightarrow> session \<Rightarrow> bool" where
  "in_half_open cur s =
     (time_to_seconds (get_or_none (start_time s)) \<le> cur \<and> cur < extended_end s)"

definition in_closed :: "int \<Rightarrow> session \<Rightarrow> bool" where
  "in_closed cur s =
     (time_to_seconds (get_or_none (start_time s)) \<le> cur \<and> cur \<le> extended_end s)"

text \<open>\<open>ShouldStop\<close> as the specification words it: against the extended end.\<close>

definition should_stop_spec :: "session \<Rightarrow> wall_clock \<Rightarrow> bool" where
  "should_stop_spec s now = (current_seconds now \<ge> extended_end s)"

text \<open>
  The specification's "of the form HH:MM (two colon-separated integers)": an integer
  text, a colon, an integer text.
\<close>

definition hhmm_form :: "string \<Rightarrow> bool" where
  "hhmm_form s = (\<exists>a b. s = a @ CHR '':'' # b \<and> py_int a \<noteq> None \<and> py_int b \<noteq> None)"

subsection \<open>Example sessions\<close>


definition morning_session :: session where
  "morning_session =
     \<lparr>start_time = Some (PyStr ''09:00''), end_time = Some (PyStr ''10:00''),
      program_id = None\<rparr>"


definition morning_schedule :: station_schedule where
  "morning_schedule = \<lparr>sessions = [''monday'' \<mapsto> [morning_session]]\<rparr>"

definition monday_at :: "nat \<Rightarrow> nat \<Rightarrow> nat \<Rightarrow> wall_clock" where
  "monday_at h m s = \<lparr>day_name = ''monday'', hour = h, minute = m, second = s\<rparr>"

definition tuesday_at :: "nat \<Rightarrow> nat \<Rightarrow> nat \<Rightarrow> wall_clock" where
  "tuesday_at h m s = \<lparr>day_name = ''tuesday'', hour = h, minute = m, second = s\<rparr>"

section \<open>The environment: clock, files, processes and the event trace\<close>

type_synonym path = string

text \<open>
  What the service does to the outside world is kept as a trace of events, in the order
  in which the code performs them.
\<close>

datatype event =
    Sleep rat
  | SignalTerm nat
  | SignalKill nat
  | RemoveFile path
  | UploadFile string
  | SetStatus string string
  | Commit string
  | Finalized string
  | CancelTask string

text \<open>The constants that \<open>__init__\<close> sets.\<close>

record config =
  max_file_access_retries :: nat
  base_retry_delay :: rat
  max_retry_delay :: rat
  windows_file_delay :: rat
  process_cleanup_timeout :: rat
  is_windows :: bool

definition default_config :: config where
  "default_config =
     \<lparr>max_file_access_retries = 10, base_retry_delay = 1 / 2, max_retry_delay = 30,
      windows_file_delay = 2, process_cleanup_timeout = 20, is_windows = False\<rparr>"

text \<open>
  A capture process as the service sees it: whether \<open>poll()\<close> still returns \<open>None\<close>,
  and whether it exits within the cleanup timeout after SIGTERM, or at all after SIGKILL.
\<close>

record process_state =
  running :: bool
  exits_on_term :: bool
  exits_on_kill :: bool

text \<open>
  The environment. The clock counts microseconds. Files have a content; whether a file
  is held open by another process is decided by the environment at each access: the
  \<open>n\<close>-th access to a path (of all accesses so far) finds it locked when
  \<open>lock_oracle p n\<close> holds, so a file may be free at the unlock check and locked again
  at the read. The blob store answers an upload with an error text or with the stored
  path and URL. Only the contents of files are taken to be stable while the service
  works on them.
\<close>

record env =
  clock :: int
  files :: "path \<rightharpoonup> string"
  lock_oracle :: "path \<Rightarrow> nat \<Rightarrow> bool"
  accesses :: nat
  procs :: "nat \<Rightarrow> process_state"
  upload_oracle :: "string \<Rightarrow> string \<Rightarrow> string + (string \<times> string)"
  trace :: "event list"

definition log_event :: "event \<Rightarrow> env \<Rightarrow> env" where
  "log_event e w = w\<lparr>trace := trace w @ [e]\<rparr>"

text \<open>\<open>asyncio.sleep(delay)\<close>: the delay is recorded and the clock moves on.\<close>

definition sleep :: "rat \<Rightarrow> env \<Rightarrow> env" where
  "sleep d w = log_event (Sleep d) (w\<lparr>clock := clock w + \<lfloor>d * 1000000\<rfloor>\<rparr>)"

definition path_exists :: "path \<Rightarrow> env \<Rightarrow> bool" where
  "path_exists p w = (files w p \<noteq> None)"

definition getsize :: "path \<Rightarrow> env \<Rightarrow> nat" where
  "getsize p w = (case files w p of None \<Rightarrow> 0 | Some c \<Rightarrow> length c)"

text \<open>
  One access to a path: it fails with an \<open>OSError\<close> when the file is missing or held
  by another process.
\<close>

definition access_fails :: "path \<Rightarrow> env \<Rightarrow> bool" where
  "access_fails p w = (files w p = None \<or> lock_oracle w p (accesses w))"

definition count_access :: "env \<Rightarrow> env" where
  "count_access w = w\<lparr>accesses := Suc (accesses w)\<rparr>"

text \<open>
  \<open>_is_file_locked\<close> opens the file for reading and writing. Its first handler,
  \<open>except (PermissionError, IOError)\<close>, catches every \<open>OSError\<close>, also
  \<open>FileNotFoundError\<close> (the handler written for it after that one is never reached):
  a missing file is reported as locked.
\<close>

definition is_file_locked :: "path \<Rightarrow> env \<Rightarrow> bool \<times> env" where
  "is_file_locked p w = (access_fails p w, count_access w)"

text \<open>The delay before the retry that follows attempt number \<open>attempt\<close>.\<close>

definition retry_delay :: "config \<Rightarrow> rat \<Rightarrow> nat \<Rightarrow> rat" where
  "retry_delay cfg base_delay attempt = min (base_delay * 2 ^ attempt) (max_retry_delay cfg)"

text \<open>
  The loop \<open>for attempt in range(max_retries)\<close> of \<open>_wait_for_file_unlock\<close>, from
  attempt number \<open>attempt\<close> with \<open>n\<close> attempts left.
\<close>

fun unlock_loop :: "config \<Rightarrow> path \<Rightarrow> rat \<Rightarrow> nat \<Rightarrow> nat \<Rightarrow> env \<Rightarrow> bool \<times> env" where
  "unlock_loop cfg p base_delay attempt 0 w = (False, w)"
| "unlock_loop cfg p base_delay attempt (Suc n) w =
     (let (locked, w1) = is_file_locked p w in
      if \<not> locked then (True, w1)
      else unlock_loop cfg p base_delay (Suc attempt) n
             (sleep (retry_delay cfg base_delay attempt) w1))"

definition wait_for_file_unlock ::
    "config \<Rightarrow> path \<Rightarrow> nat option \<Rightarrow> rat option \<Rightarrow> env \<Rightarrow> bool \<times> env" where
  "wait_for_file_unlock cfg p max_retries base_delay w =
     (let max_retries = (case max_retries of None \<Rightarrow> max_file_access_retries cfg | Some n \<Rightarrow> n);
          base_delay = (case base_delay of None \<Rightarrow> base_retry_delay cfg | Some d \<Rightarrow> d)
      in if \<not> path_exists p w then (False, w)
         else unlock_loop cfg p base_delay 0 max_retries w)"

text \<open>
  The read loop of \<open>_safe_file_read\<close>: each attempt opens the file; an \<open>OSError\<close>
  sleeps and tries again.
\<close>

fun read_loop :: "config \<Rightarrow> path \<Rightarrow> nat \<Rightarrow> nat \<Rightarrow> env \<Rightarrow> string option \<times> env" where
  "read_loop cfg p attempt 0 w = (None, w)"
| "read_loop cfg p attempt (Suc n) w =
     (if \<not> access_fails p w then (files w p, count_access w)
      else read_loop cfg p (Suc attempt) n
             (sleep (retry_delay cfg (base_retry_delay cfg) attempt) (count_access w)))"

text \<open>Decimal text of a number, as an f-string prints an \<open>int\<close>.\<close>

fun str_digits :: "nat \<Rightarrow> nat \<Rightarrow> string" where
  "str_digits 0 n = []"
| "str_digits (Suc fuel) n =
     (if n < 10 then [char_of (48 + n)]
      else str_digits fuel (n div 10) @ [char_of (48 + n mod 10)])"

definition str_nat :: "nat \<Rightarrow> string" where
  "str_nat n = str_digits (Suc n) n"

definition safe_file_read :: "config \<Rightarrow> path \<Rightarrow> env \<Rightarrow> (bool \<times> string option \<times> string) \<times> env" where
  "safe_file_read cfg p w =
     (if \<not> path_exists p w then ((False, None, ''File does not exist: '' @ p), w)
      else if getsize p w = 0 then ((False, None, ''File is empty: '' @ p), w)
      else
        (let (unlocked, w1) = wait_for_file_unlock cfg p None None w in
         if \<not> unlocked then ((False, None, ''File remains locked after retries: '' @ p), w1)
         else
           (case read_loop cfg p 0 (max_file_access_retries cfg) w1 of
              (Some content, w2) \<Rightarrow> ((True, Some content, ''Success''), w2)
            | (None, w2) \<Rightarrow>
                ((False, None,
                  ''Failed to read file after '' @ str_nat (max_file_access_retries cfg)
                    @ '' attempts''), w2))))"

text \<open>
  The delete loop of \<open>_safe_file_delete\<close>: each attempt calls \<open>os.remove\<close>; an
  \<open>OSError\<close> sleeps and tries again.
\<close>

fun delete_loop :: "config \<Rightarrow> path \<Rightarrow> nat \<Rightarrow> nat \<Rightarrow> env \<Rightarrow> bool \<times> env" where
  "delete_loop cfg p attempt 0 w = (False, w)"
| "delete_loop cfg p attempt (Suc n) w =
     (let w1 = log_event (RemoveFile p) w in
      if \<not> access_fails p w1 then (True, count_access (w1\<lparr>files := (files w1)(p := None)\<rparr>))
      else delete_loop cfg p (Suc attempt) n
             (sleep (retry_delay cfg (base_retry_delay cfg) attempt) (count_access w1)))"

definition safe_file_delete :: "config \<Rightarrow> path \<Rightarrow> env \<Rightarrow> (bool \<times> string) \<times> env" where
  "safe_file_delete cfg p w =
     (if \<not> path_exists p w then ((True, ''File already deleted''), w)
      else
        (let (unlocked, w1) = wait_for_file_unlock cfg p None None w in
         if \<not> unlocked then ((False, ''Cannot delete locked file: '' @ p), w1)
         else
           (case delete_loop cfg p 0 (max_file_access_retries cfg) w1 of
              (True, w2) \<Rightarrow> ((True, ''File deleted successfully''), w2)
            | (False, w2) \<Rightarrow>
                ((False,
                  ''Failed to delete file after '' @ str_nat (max_file_access_retries cfg)
                    @ '' attempts''), w2))))"

text \<open>The sleeps of \<open>n\<close> failed attempts in a row, from attempt number \<open>a\<close>.\<close>

definition backoff :: "config \<Rightarrow> rat \<Rightarrow> nat \<Rightarrow> nat \<Rightarrow> event list" where
  "backoff cfg b a n = map (\<lambda>i. Sleep (retry_delay cfg b i)) [a..<a + n]"

text \<open>The delays that the trace records, in order.\<close>

fun sleeps_of :: "event list \<Rightarrow> rat list" where
  "sleeps_of [] = []"
| "sleeps_of (Sleep d # es) = d # sleeps_of es"
| "sleeps_of (e # es) = sleeps_of es"


text \<open>An environment with one captured file that some other process never lets go.\<close>

definition stuck_env :: env where
  "stuck_env =
     \<lparr>clock = 0, files = [''rec.mp3'' \<mapsto> ''audio''], lock_oracle = (\<lambda>p n. True),
      accesses = 0,
      procs = (\<lambda>pid. \<lparr>running = False, exits_on_term = True, exits_on_kill = True\<rparr>),
      upload_oracle = (\<lambda>name content. Inl ''store down''), trace = []\<rparr>"

section \<open>Recording rows and the stop path\<close>

text \<open>
  The fields of a \<open>RadioSessionRecording\<close> row that the stop path reads or writes.
  The status column holds one of the texts \<open>scheduled\<close>, \<open>recording\<close>,
  \<open>completed\<close>, \<open>failed\<close>, \<open>cancelled\<close>. Times are clock readings in
  microseconds; \<open>file_size_mb\<close> and \<open>duration_minutes\<close> are the exact rationals of
  which the code holds floating-point approximations.
\<close>

record recording_row =
  recording_status :: string
  actual_start_time :: "int option"
  actual_end_time :: "int option"
  recording_file_path :: "string option"
  recording_file_url :: "string option"
  file_size_mb :: "rat option"
  duration_minutes :: "rat option"
  error_message :: "string option"

text \<open>An entry of \<open>recording_processes\<close>: the dictionary that \<open>_start_session_recording\<close> stores.\<close>

record active_capture =
  cap_process :: nat
  cap_recording_id :: string
  cap_file_path :: path
  cap_start_time :: int
  cap_session :: session

text \<open>\<open>round(x, ndigits)\<close>: to the nearest multiple of \<open>10^-ndigits\<close>, ties to even.\<close>

definition round_half_even :: "rat \<Rightarrow> int" where
  "round_half_even q =
     (let f = \<lfloor>q\<rfloor>; r = q - of_int f
      in if r < 1 / 2 then f else if r > 1 / 2 then f + 1 else if even f then f else f + 1)"

definition py_round :: "rat \<Rightarrow> nat \<Rightarrow> rat" where
  "py_round x ndigits = of_int (round_half_even (x * 10 ^ ndigits)) / 10 ^ ndigits"

text \<open>\<open>(t1 - t0).total_seconds() / 60\<close>\<close>

definition minutes_between :: "int \<Rightarrow> int \<Rightarrow> rat" where
  "minutes_between t0 t1 = of_int (t1 - t0) / 1000000 / 60"

text \<open>\<open>os.path.basename\<close> on a POSIX path: what follows the last slash.\<close>

definition basename :: "path \<Rightarrow> string" where
  "basename p = rev (takeWhile (\<lambda>c. c \<noteq> CHR ''/'') (rev p))"

text \<open>
  The four assignments that every failure branch of \<open>_finalize_recording\<close> makes:
  status, error message, end time and duration.
\<close>

definition set_failed :: "string \<Rightarrow> int \<Rightarrow> rat \<Rightarrow> recording_row \<Rightarrow> recording_row" where
  "set_failed msg ended minutes r =
     r\<lparr>recording_status := ''failed'', error_message := Some msg,
       actual_end_time := Some ended, duration_minutes := Some (py_round minutes 1)\<rparr>"

text \<open>
  \<open>_finalize_recording\<close>. The row is looked up; without a row the function returns.
  The branches assign to the row object; \<open>db.commit()\<close> at the end stores it. The
  record store is taken to work: \<open>execute\<close> and \<open>commit\<close> raise nothing, and none
  of the file operations raises (each catches its own errors), so the three handlers
  of the function (file check error, upload error after a successful upload, critical
  error) have no path leading to them here. A failed upload is the blob store's answer
  \<open>Inl\<close>.
\<close>

definition finalize_recording ::
    "config \<Rightarrow> active_capture \<Rightarrow> (string \<rightharpoonup> recording_row) \<Rightarrow> env
      \<Rightarrow> (string \<rightharpoonup> recording_row) \<times> env" where
  "finalize_recording cfg recording_data rows w =
     (let recording_id = cap_recording_id recording_data;
          file_path = cap_file_path recording_data;
          actual_start_time = cap_start_time recording_data
      in case rows recording_id of
           None \<Rightarrow> (rows, w)
         | Some recording \<Rightarrow>
             (let actual_end_time = clock w;
                  actual_duration_minutes = minutes_between actual_start_time actual_end_time;
                  commit = (\<lambda>row w'. (rows(recording_id \<mapsto> row), log_event (Commit recording_id) w'));
                  failed = (\<lambda>msg w'.
                     (set_failed msg actual_end_time actual_duration_minutes recording,
                      log_event (SetStatus recording_id ''failed'') w'))
              in if path_exists file_path w then
                   (let file_size = getsize file_path w in
                    if file_size > 0 then
                      (let file_size_mb = of_nat file_size / (1024 * 1024);
                           ((success, file_content, error_msg), w1) =
                              safe_file_read cfg file_path w;
                           read_failed = (\<lambda>u::unit.
                              (let (row, w2) = failed (''File read error: '' @ error_msg) w1
                               in commit (row\<lparr>recording_file_path := Some file_path\<rparr>) w2))
                       in case file_content of
                            None \<Rightarrow> read_failed ()
                          | Some content \<Rightarrow>
                              if success \<and> content \<noteq> [] then
                                (let original_filename = basename file_path;
                                     w2 = log_event (UploadFile original_filename) w1
                                 in case upload_oracle w2 original_filename content of
                                      Inr (file_path_saved, file_url) \<Rightarrow>
                                        (let row = recording
                                               \<lparr>recording_status := ''completed'',
                                                actual_end_time := Some actual_end_time,
                                                recording_file_path := Some file_path_saved,
                                                recording_file_url := Some file_url,
                                                file_size_mb := Some (py_round file_size_mb 2),
                                                duration_minutes :=
                                                  Some (py_round actual_duration_minutes 1),
                                                error_message := None\<rparr>;
                                             w3 = log_event (SetStatus recording_id ''completed'') w2;
                                             (deleted, w4) = safe_file_delete cfg file_path w3
                                         in commit row w4)
                                    | Inl upload_error \<Rightarrow>
                                        (let (row, w3) =
                                               failed (''File upload error: '' @ upload_error) w2
                                         in commit (row\<lparr>recording_file_path := Some file_path\<rparr>) w3))
                              else read_failed ())
                    else
                      (let (row, w1) = failed ''Recording file is empty (0 bytes)'' w
                       in commit row w1))
                 else
                   (let (row, w1) = failed ''Recording file not found'' w
                    in commit row w1)))"

subsection \<open>Processes\<close>

definition is_process_running :: "nat \<Rightarrow> env \<Rightarrow> bool" where
  "is_process_running pid w = running (procs w pid)"

definition set_exited :: "nat \<Rightarrow> env \<Rightarrow> env" where
  "set_exited pid w = w\<lparr>procs := (procs w)(pid := (procs w pid)\<lparr>running := False\<rparr>)\<rparr>"

text \<open>
  \<open>_terminate_process\<close> and \<open>_force_kill_process\<close>: nothing for a process that has
  exited, else the signal. Their boolean results are not used by the stop path.
\<close>

definition terminate_process :: "nat \<Rightarrow> env \<Rightarrow> env" where
  "terminate_process pid w =
     (if \<not> is_process_running pid w then w
      else (let w1 = log_event (SignalTerm pid) w
            in if exits_on_term (procs w pid) then set_exited pid w1 else w1))"

definition force_kill_process :: "nat \<Rightarrow> env \<Rightarrow> env" where
  "force_kill_process pid w =
     (if \<not> is_process_running pid w then w
      else (let w1 = log_event (SignalKill pid) w
            in if exits_on_kill (procs w pid) then set_exited pid w1 else w1))"

text \<open>
  \<open>_wait_for_process_cleanup\<close> polls every 0.1 s until the process has exited (true,
  after the extra delay on Windows) or the timeout has passed (false). The polls of a
  wait that times out are recorded as one sleep of the whole timeout.
\<close>

definition wait_for_process_cleanup :: "config \<Rightarrow> nat \<Rightarrow> env \<Rightarrow> bool \<times> env" where
  "wait_for_process_cleanup cfg pid w =
     (if process_cleanup_timeout cfg \<le> 0 then (False, w)
      else if \<not> is_process_running pid w then
        (True, if is_windows cfg then sleep (windows_file_delay cfg) w else w)
      else (False, sleep (process_cleanup_timeout cfg) w))"

subsection \<open>The service\<close>

text \<open>An asyncio task of a station loop: whether it has already ended.\<close>

record task =
  task_done :: bool

text \<open>
  The two dictionaries of the service keep their insertion order, which is the order in
  which \<open>stop\<close> walks them: they are association lists.
\<close>

record service =
  settings :: config
  station_tasks :: "(string \<times> task) list"
  recording_processes :: "(string \<times> active_capture) list"
  record_store :: "string \<rightharpoonup> recording_row"
  world :: env

text \<open>
  Steps 1 and 2 of \<open>_stop_session_recording\<close>: terminate, wait for the cleanup, and
  after a timeout force kill, sleep and look at the process once more (which only
  logs). No call in this \<open>try\<close> raises, so its handler has no path leading to it.
\<close>

definition terminate_and_wait :: "config \<Rightarrow> nat \<Rightarrow> env \<Rightarrow> env" where
  "terminate_and_wait cfg pid w =
     (let w1 = terminate_process pid w;
          (process_cleaned, w2) = wait_for_process_cleanup cfg pid w1
      in if \<not> process_cleaned then
           sleep (if is_windows cfg then windows_file_delay cfg else 1)
             (force_kill_process pid w2)
         else w2)"

text \<open>
  \<open>_stop_session_recording\<close>: unknown key, return. Else stop the process, finalize
  (step 3; \<open>_finalize_recording\<close> catches its own errors, so the handler that marks
  the row failed has no path leading to it), and delete the key from the table (step 4).
\<close>

definition stop_session_recording :: "string \<Rightarrow> service \<Rightarrow> service" where
  "stop_session_recording recording_key s =
     (case map_of (recording_processes s) recording_key of
        None \<Rightarrow> s
      | Some recording_data \<Rightarrow>
          (let w3 = terminate_and_wait (settings s) (cap_process recording_data) (world s);
               (db', w4) = finalize_recording (settings s) recording_data (record_store s) w3;
               w5 = log_event (Finalized recording_key) w4
           in s\<lparr>record_store := db', world := w5,
                recording_processes :=
                  filter (\<lambda>kv. fst kv \<noteq> recording_key) (recording_processes s)\<rparr>))"

text \<open>
  \<open>_save_station_recordings_on_shutdown\<close>, which the station loop runs when it is
  cancelled: the stop path for every active key that starts with the station id.
\<close>

definition save_station_recordings_on_shutdown :: "string \<Rightarrow> service \<Rightarrow> service" where
  "save_station_recordings_on_shutdown station_id s =
     fold stop_session_recording
       (filter (prefix station_id) (map fst (recording_processes s))) s"

text \<open>
  \<open>task.cancel()\<close> and the wait for the task: a loop that has not ended receives
  \<open>CancelledError\<close> and runs its handler. (The ten seconds that \<open>stop\<close> waits are not
  modelled.)
\<close>

definition cancel_task :: "string \<times> task \<Rightarrow> service \<Rightarrow> service" where
  "cancel_task st s =
     (let s1 = s\<lparr>world := log_event (CancelTask (fst st)) (world s)\<rparr>
      in if task_done (snd st) then s1
         else save_station_recordings_on_shutdown (fst st) s1)"

text \<open>
  \<open>stop\<close>: the stop path for every key of a snapshot of the table, then the
  cancellation of every task of a snapshot of the task table, then both tables are
  cleared. The station loops are taken not to run in between.
\<close>

definition stop :: "service \<Rightarrow> service" where
  "stop s =
     (let active_recordings = map fst (recording_processes s);
          s1 = fold stop_session_recording active_recordings s;
          s2 = fold cancel_task (station_tasks s1) s1
      in s2\<lparr>station_tasks := [], recording_processes := []\<rparr>)"

fun is_cancel :: "event \<Rightarrow> bool" where
  "is_cancel (CancelTask sid) = True"
| "is_cancel e = False"

fun is_sleep :: "event \<Rightarrow> bool" where
  "is_sleep (Sleep d) = True"
| "is_sleep e = False"

definition terminal :: "recording_row \<Rightarrow> bool" where
  "terminal r = (recording_status r = ''completed'' \<or> recording_status r = ''failed'')"

section \<open>Predicates for stating the properties\<close>

text \<open>What a step has added to the trace, and that it has only added events of one kind.\<close>

definition new_events :: "env \<Rightarrow> env \<Rightarrow> event list" where
  "new_events w w' = drop (length (trace w)) (trace w')"

definition grows :: "(event \<Rightarrow> bool) \<Rightarrow> env \<Rightarrow> env \<Rightarrow> bool" where
  "grows P w w' = (take (length (trace w)) (trace w') = trace w \<and> list_all P (new_events w w'))"


definition no_cancel :: "event \<Rightarrow> bool" where
  "no_cancel e = (\<not> is_cancel e)"

text \<open>The row of a recording id exists and has reached \<open>completed\<close> or \<open>failed\<close>.\<close>

definition terminal_at :: "(string \<rightharpoonup> recording_row) \<Rightarrow> string \<Rightarrow> bool" where
  "terminal_at rows rid = (case rows rid of None \<Rightarrow> False | Some r \<Rightarrow> terminal r)"

subsection \<open>Example states\<close>

definition row0 :: recording_row where
  "row0 =
     \<lparr>recording_status = ''recording'', actual_start_time = Some 0, actual_end_time = None,
      recording_file_path = Some ''rec.mp3'', recording_file_url = None,
      file_size_mb = None, duration_minutes = None, error_message = None\<rparr>"

definition cap0 :: active_capture where
  "cap0 =
     \<lparr>cap_process = 7, cap_recording_id = ''r1'', cap_file_path = ''rec.mp3'',
      cap_start_time = 3000000, cap_session = morning_session\<rparr>"

text \<open>One hour after the capture began; the file is free and the blob store accepts it.\<close>

definition free_env :: env where
  "free_env =
     stuck_env\<lparr>lock_oracle := (\<lambda>p n. False), clock := 3603000000,
       upload_oracle := (\<lambda>name content. Inr (''uploads/'' @ name, ''http://x/'' @ name))\<rparr>"

definition svc0 :: service where
  "svc0 =
     \<lparr>settings = default_config, station_tasks = [(''st1'', \<lparr>task_done = False\<rparr>)],
      recording_processes = [(''st1_20240101_0900'', cap0)],
      record_store = [''r1'' \<mapsto> row0], world = free_env\<rparr>"

section \<open>Preflight validation\<close>

text \<open>
  A line of the validation report. The lines that print a measured number keep the
  number; all others are texts.
\<close>

datatype message =
    Msg string
  | LowDiskSpace rat rat
  | LowMemory rat
  | LowCpuCount int

text \<open>
  What the checks of \<open>validate_system\<close> find on the machine, one group of fields for
  each check. Every check catches its own exceptions and reports them in its result.
  \<open>psutil.cpu_count()\<close> may return \<open>None\<close>.
\<close>

record probes =
  os_prereq_errors :: "string list"
  os_prereq_warnings :: "string list"
  os_prereq_issues :: "string list"
  ffmpeg_result :: "bool \<times> string \<times> string"
  ffmpeg_os_warnings :: "string list"
  ffmpeg_os_issues :: "string list"
  timezone_warnings :: "string list"
  storage_success :: bool
  storage_available_gb :: rat
  storage_warnings :: "string list"
  storage_issues :: "string list"
  storage_error :: string
  db_result :: "bool \<times> string"
  permissions_success :: bool
  permissions_warnings :: "string list"
  permissions_issues :: "string list"
  permissions_error :: string
  memory_gb :: rat
  cpu_count :: "int option"
  resources_warnings :: "string list"
  resources_issues :: "string list"
  network_result :: "bool \<times> string"
  services_warnings :: "string list"
  services_issues :: "string list"

text \<open>
  \<open>ValidationResult\<close>, without the system information and the recommendations, which
  are computed from the findings and change neither the errors nor the warnings.
\<close>

record validation_result =
  is_valid :: bool
  errors :: "message list"
  warnings :: "message list"
  platform_specific_issues :: "string list"

text \<open>
  \<open>validate_system\<close>, step by step as the source numbers them. The comparison of the
  CPU count with 2 raises \<open>TypeError\<close> for \<open>None\<close>; the handler of the function
  then returns an invalid result with one more error.
\<close>

definition validate_system :: "rat \<Rightarrow> probes \<Rightarrow> validation_result" where
  "validate_system min_disk_gb p =
     (let errors0 = map Msg (os_prereq_errors p);
          warnings0 = map Msg (os_prereq_warnings p);
          issues0 = os_prereq_issues p;
          errors1 = (if \<not> fst (ffmpeg_result p)
                     then errors0 @ [Msg (''FFmpeg validation failed: '' @ fst (snd (ffmpeg_result p)))]
                     else errors0);
          warnings1 = (if \<not> fst (ffmpeg_result p) then warnings0
                       else warnings0 @ map Msg (ffmpeg_os_warnings p));
          issues1 = (if \<not> fst (ffmpeg_result p) then issues0
                     else issues0 @ ffmpeg_os_issues p);
          warnings2 = warnings1 @ map Msg (timezone_warnings p);
          errors2 = (if \<not> storage_success p
                     then errors1 @ [Msg (''Storage validation failed: '' @ storage_error p)]
                     else errors1);
          warnings3 = (if \<not> storage_success p then warnings2
                       else (if storage_available_gb p < min_disk_gb
                             then warnings2 @ [LowDiskSpace (storage_available_gb p) min_disk_gb]
                             else warnings2) @ map Msg (storage_warnings p));
          issues2 = (if \<not> storage_success p then issues1 else issues1 @ storage_issues p);
          errors3 = (if \<not> fst (db_result p)
                     then errors2 @ [Msg (''Database validation failed: '' @ snd (db_result p))]
                     else errors2);
          errors4 = (if \<not> permissions_success p
                     then errors3 @
                       [Msg (''File permissions validation failed: '' @ permissions_error p)]
                     else errors3);
          warnings4 = (if \<not> permissions_success p then warnings3
                       else warnings3 @ map Msg (permissions_warnings p));
          issues3 = (if \<not> permissions_success p then issues2
                     else issues2 @ permissions_issues p);
          warnings5 = (if memory_gb p < 1 then warnings4 @ [LowMemory (memory_gb p)]
                       else warnings4)
      in case cpu_count p of
           None \<Rightarrow>
             \<lparr>is_valid = False,
              errors = errors4 @ [Msg ''Validation exception: TypeError''],
              warnings = warnings5, platform_specific_issues = issues3\<rparr>
         | Some cpus \<Rightarrow>
             (let warnings6 = (if cpus < 2 then warnings5 @ [LowCpuCount cpus] else warnings5);
                  warnings7 = warnings6 @ map Msg (resources_warnings p);
                  issues4 = issues3 @ resources_issues p;
                  warnings8 = (if \<not> fst (network_result p)
                               then warnings7 @
                                 [Msg (''Network validation warning: '' @ snd (network_result p))]
                               else warnings7);
                  warnings9 = warnings8 @ map Msg (services_warnings p);
                  issues5 = issues4 @ services_issues p
              in \<lparr>is_valid = (length errors4 = 0), errors = errors4, warnings = warnings9,
                  platform_specific_issues = issues5\<rparr>))"

text \<open>
  \<open>validate_and_start\<close>: an invalid result raises \<open>SystemExit\<close>, which is no
  \<open>Exception\<close> and passes the handler of the function; else the service is marked
  validated and \<open>start\<close> is called (here: recorded).
\<close>

datatype startup_error = SystemExit string

record orchestrator =
  is_validated :: bool
  start_called :: bool
  last_validation :: "validation_result option"

definition validate_and_start ::
    "rat \<Rightarrow> probes \<Rightarrow> orchestrator \<Rightarrow> startup_error + orchestrator" where
  "validate_and_start min_disk_gb p s =
     (let result = validate_system min_disk_gb p;
          s1 = s\<lparr>last_validation := Some result\<rparr>
      in if \<not> is_valid result then Inl (SystemExit ''System validation failed - see report above'')
         else Inr (s1\<lparr>is_validated := True, start_called := True\<rparr>))"

definition hard_checks_pass :: "probes \<Rightarrow> bool" where
  "hard_checks_pass p =
     (fst (ffmpeg_result p) \<and> storage_success p \<and> fst (db_result p) \<and> permissions_success p)"

text \<open>A machine on which every check passes, with 100 GB free and 8 GB of memory.\<close>

definition good_probes :: probes where
  "good_probes =
     \<lparr>os_prereq_errors = [], os_prereq_warnings = [], os_prereq_issues = [],
      ffmpeg_result = (True, ''ffmpeg version 6.0'', ''/usr/bin/ffmpeg''),
      ffmpeg_os_warnings = [], ffmpeg_os_issues = [], timezone_warnings = [],
      storage_success = True, storage_available_gb = 100, storage_warnings = [],
      storage_issues = [], storage_error = [],
      db_result = (True, ''Database connectivity confirmed''),
      permissions_success = True, permissions_warnings = [], permissions_issues = [],
      permissions_error = [],
      memory_gb = 8, cpu_count = Some 4, resources_warnings = [], resources_issues = [],
      network_result = (True, ''Network connectivity confirmed''),
      services_warnings = [], services_issues = []\<rparr>"

definition fresh_orchestrator :: orchestrator where
  "fresh_orchestrator = \<lparr>is_validated = False, start_called = False, last_validation = None\<rparr>"

section \<open>Properties of the time conversion and the resolver\<close>

lemmas time_eval = time_to_seconds_def py_int_def py_strip_def py_isspace_def
  parse_unsigned_def is_digit_def digit_val_def get_or_none_def get_default_def
  current_seconds_def monday_at_def tuesday_at_def

subsection \<open>Splitting and integer texts\<close>

lemma py_split_not_Nil: "py_split c s \<noteq> []"
  by (induction s) (auto split: list.splits)

lemma py_split_single: "py_split c s = [w] \<Longrightarrow> s = w"
proof (induction s arbitrary: w)
  case Nil
  then show ?case by simp
next
  case (Cons x xs)
  show ?case
  proof (cases "x = c")
    case True
    with Cons.prems show ?thesis by (simp add: py_split_not_Nil)
  next
    case False
    with Cons.prems obtain v where "py_split c xs = [v]" "w = x # v"
      by (auto split: list.splits simp: py_split_not_Nil)
    with Cons.IH show ?thesis by simp
  qed
qed

lemma py_split_pair: "py_split c s = [a, b] \<Longrightarrow> s = a @ c # b"
proof (induction s arbitrary: a)
  case Nil
  then show ?case by simp
next
  case (Cons x xs)
  show ?case
  proof (cases "x = c")
    case True
    with Cons.prems have "a = []" "py_split c xs = [b]" by auto
    then show ?thesis using True py_split_single by fastforce
  next
    case False
    with Cons.prems obtain v where "py_split c xs = [v, b]" "a = x # v"
      by (auto split: list.splits)
    with Cons.IH show ?thesis by simp
  qed
qed

lemma py_split_no_sep: "c \<notin> set s \<Longrightarrow> py_split c s = [s]"
  by (induction s) auto

lemma py_split_at_first: "c \<notin> set a \<Longrightarrow> py_split c (a @ c # b) = a # py_split c b"
  by (induction a) auto

lemma parse_digits_chars:
  "parse_digits acc cs = Some n \<Longrightarrow> x \<in> set cs \<Longrightarrow> is_digit x \<or> x = CHR ''_''"
  by (induction acc cs rule: parse_digits.induct) (auto split: if_splits)

lemma parse_unsigned_chars:
  "parse_unsigned cs = Some n \<Longrightarrow> x \<in> set cs \<Longrightarrow> is_digit x \<or> x = CHR ''_''"
  by (auto simp: parse_unsigned_def split: list.splits if_splits dest: parse_digits_chars)

lemma dropWhile_keeps: "x \<in> set s \<Longrightarrow> \<not> P x \<Longrightarrow> x \<in> set (dropWhile P s)"
  by (induction s) auto

lemma py_strip_keeps: "x \<in> set s \<Longrightarrow> \<not> py_isspace x \<Longrightarrow> x \<in> set (py_strip s)"
  by (simp add: py_strip_def dropWhile_keeps)

text \<open>No text that \<open>int\<close> accepts contains a colon.\<close>

lemma py_int_no_colon:
  assumes "py_int a = Some h"
  shows "CHR '':'' \<notin> set a"
proof
  assume "CHR '':'' \<in> set a"
  then have mem: "CHR '':'' \<in> set (py_strip a)"
    by (rule py_strip_keeps) (simp add: py_isspace_def)
  have nd: "\<not> (is_digit (CHR '':'') \<or> CHR '':'' = CHR ''_'')"
    by (simp add: is_digit_def)
  from assms mem nd show False
    by (auto simp: py_int_def split: list.splits if_splits dest: parse_unsigned_chars)
qed

text \<open>
  The form of the specification is exactly the path on which \<open>_time_to_seconds\<close>
  raises nothing: two pieces, both integer texts.
\<close>

lemma hhmm_form_code:
  "hhmm_form s =
     (case py_split (CHR '':'') s of
        [a, b] \<Rightarrow> py_int a \<noteq> None \<and> py_int b \<noteq> None
      | _ \<Rightarrow> False)"
proof
  assume "hhmm_form s"
  then obtain a b h m where s: "s = a @ CHR '':'' # b"
    and a: "py_int a = Some h" and b: "py_int b = Some m"
    by (auto simp: hhmm_form_def)
  have "py_split (CHR '':'') s = [a, b]"
    using s py_int_no_colon [OF a] py_int_no_colon [OF b]
    by (simp add: py_split_at_first py_split_no_sep)
  with a b show "case py_split (CHR '':'') s of
      [a, b] \<Rightarrow> py_int a \<noteq> None \<and> py_int b \<noteq> None | _ \<Rightarrow> False"
    by simp
next
  assume "case py_split (CHR '':'') s of
      [a, b] \<Rightarrow> py_int a \<noteq> None \<and> py_int b \<noteq> None | _ \<Rightarrow> False"
  then obtain a b where ab: "py_split (CHR '':'') s = [a, b]"
    "py_int a \<noteq> None" "py_int b \<noteq> None"
    by (auto split: list.splits)
  from py_split_pair [OF ab(1)] ab(2,3) show "hhmm_form s"
    by (auto simp: hhmm_form_def)
qed

lemma current_seconds_nonneg: "0 \<le> current_seconds now"
  by (simp add: current_seconds_def)

text \<open>
  Claim C10. For every string that is not of the form HH:MM (two colon-separated
  integers) \<open>_time_to_seconds\<close> returns 0; so \<open>_should_start_recording\<close> on a session
  whose \<open>start_time\<close> is such a string is true at every time of day.
\<close>

theorem time_to_seconds_malformed_zero:
  assumes "\<not> hhmm_form s"
  shows "time_to_seconds (PyStr s) = 0 \<and>
         (\<forall>sess now. start_time sess = Some (PyStr s) \<longrightarrow> should_start_recording sess now)"
proof -
  have z: "time_to_seconds (PyStr s) = 0"
    using assms unfolding hhmm_form_code time_to_seconds_def
    by (auto split: list.splits option.splits)
  then show ?thesis
    by (simp add: should_start_recording_def get_default_def current_seconds_nonneg)
qed

theorem time_to_seconds_malformed_zero_witness:
  "\<not> hhmm_form ''9:3o'' \<and> time_to_seconds (PyStr ''9:3o'') = 0 \<and>
   should_start_recording
     \<lparr>start_time = Some (PyStr ''9:3o''), end_time = Some (PyStr ''10:00''), program_id = None\<rparr>
     (monday_at 0 0 0)"
proof -
  have h: "\<not> hhmm_form ''9:3o''"
    by (simp add: hhmm_form_code time_eval)
  from time_to_seconds_malformed_zero [OF h] h show ?thesis by simp
qed

subsection \<open>The scan of a day's sessions\<close>

lemma scan_sessions_Some_iff:
  "scan_sessions cur ss = Some s \<longleftrightarrow>
     (\<exists>i < length ss. ss ! i = s \<and> session_matches cur s \<and>
        (\<forall>j < i. \<not> session_matches cur (ss ! j)))"
proof (induction ss)
  case Nil
  show ?case by simp
next
  case (Cons x xs)
  show ?case
  proof (cases "session_matches cur x")
    case True
    have "(\<exists>i < length (x # xs). (x # xs) ! i = s \<and> session_matches cur s \<and>
            (\<forall>j < i. \<not> session_matches cur ((x # xs) ! j))) \<longleftrightarrow> x = s"
    proof
      assume "\<exists>i < length (x # xs). (x # xs) ! i = s \<and> session_matches cur s \<and>
            (\<forall>j < i. \<not> session_matches cur ((x # xs) ! j))"
      then obtain i where i: "(x # xs) ! i = s"
        "\<forall>j < i. \<not> session_matches cur ((x # xs) ! j)"
        by blast
      have "i = 0"
      proof (rule ccontr)
        assume "i \<noteq> 0"
        then have "0 < i" by simp
        with i(2) have "\<not> session_matches cur ((x # xs) ! 0)" by blast
        with True show False by simp
      qed
      with i(1) show "x = s" by simp
    next
      assume "x = s"
      with True have "0 < length (x # xs) \<and> (x # xs) ! 0 = s \<and> session_matches cur s \<and>
            (\<forall>j < 0. \<not> session_matches cur ((x # xs) ! j))" by simp
      then show "\<exists>i < length (x # xs). (x # xs) ! i = s \<and> session_matches cur s \<and>
            (\<forall>j < i. \<not> session_matches cur ((x # xs) ! j))" by blast
    qed
    with True show ?thesis by auto
  next
    case False
    have "(\<exists>i < length (x # xs). (x # xs) ! i = s \<and> session_matches cur s \<and>
            (\<forall>j < i. \<not> session_matches cur ((x # xs) ! j))) \<longleftrightarrow>
          (\<exists>i < length xs. xs ! i = s \<and> session_matches cur s \<and>
            (\<forall>j < i. \<not> session_matches cur (xs ! j)))" (is "?L \<longleftrightarrow> ?R")
    proof
      assume ?L
      then obtain i where i: "i < length (x # xs)" "(x # xs) ! i = s"
        "session_matches cur s" "\<forall>j < i. \<not> session_matches cur ((x # xs) ! j)"
        by blast
      from i(2,3) False have "i \<noteq> 0" by (auto intro: ccontr)
      then obtain k where k: "i = Suc k" by (cases i) auto
      have "\<forall>j < k. \<not> session_matches cur (xs ! j)"
      proof (intro allI impI)
        fix j assume "j < k"
        then have "Suc j < i" using k by simp
        with i(4) have "\<not> session_matches cur ((x # xs) ! Suc j)" by blast
        then show "\<not> session_matches cur (xs ! j)" by simp
      qed
      with i k show ?R by auto
    next
      assume ?R
      then obtain k where k: "k < length xs" "xs ! k = s" "session_matches cur s"
        "\<forall>j < k. \<not> session_matches cur (xs ! j)" by blast
      have "\<forall>j < Suc k. \<not> session_matches cur ((x # xs) ! j)"
      proof (intro allI impI)
        fix j assume "j < Suc k"
        then show "\<not> session_matches cur ((x # xs) ! j)"
          using k(4) False by (cases j) auto
      qed
      with k have "Suc k < length (x # xs) \<and> (x # xs) ! Suc k = s \<and>
         session_matches cur s \<and> (\<forall>j < Suc k. \<not> session_matches cur ((x # xs) ! j))"
        by simp
      then show ?L by blast
    qed
    with False Cons.IH show ?thesis by simp
  qed
qed

lemma scan_sessions_None_iff:
  "scan_sessions cur ss = None \<longleftrightarrow> (\<forall>s \<in> set ss. \<not> session_matches cur s)"
  by (induction ss) auto

lemma session_matches_closed:
  "session_matches cur s \<longleftrightarrow> truthy (start_time s) \<and> truthy (end_time s) \<and> in_closed cur s"
  by (auto simp: session_matches_def in_closed_def extended_end_def Let_def)



text \<open>The two instances of the specification for a session from 09:00 to 10:00 hold.\<close>

lemma should_stop_recording_morning:
  "\<not> should_stop_recording morning_session (monday_at 9 59 59) \<and>
   should_stop_recording morning_session (monday_at 10 0 0)"
  by (simp add: morning_session_def should_stop_recording_def time_eval)

text \<open>Where the end is after the start, the code and the specification agree.\<close>

lemma should_stop_recording_same_day:
  assumes "time_to_seconds (get_or_none (start_time s)) <
           time_to_seconds (get_or_none (end_time s))"
    and "end_time s \<noteq> None"
  shows "should_stop_recording s now = should_stop_spec s now"
  using assms
  by (auto simp: should_stop_recording_def should_stop_spec_def extended_end_def Let_def
      get_default_def get_or_none_def split: option.splits)

text \<open>
  Claim C4, as stated, fails: at 10:00:00 the session from 09:00 to 10:00 is returned,
  though 10:00:00 is outside the half-open interval.
\<close>

theorem get_current_session_end_inclusive:
  "get_current_session (Some morning_schedule) (monday_at 10 0 0) = Some morning_session \<and>
   \<not> in_half_open (current_seconds (monday_at 10 0 0)) morning_session"
  by (simp add: morning_schedule_def morning_session_def get_current_session_def
      session_matches_def in_half_open_def extended_end_def time_eval)

text \<open>
  Claim C4, amended. \<open>_get_current_session\<close> returns a session exactly when it is the
  first one in the day's list, in list order, whose start and end are both given and
  whose closed interval from the start to the end (moved 24 hours on when it is not
  after the start) contains the time of day; a time equal to the end is contained. It
  returns nothing exactly when no session of the day is such.
\<close>

theorem get_current_session_closed_first_match:
  assumes "sessions sch (day_name now) = Some ss"
  shows "(get_current_session (Some sch) now = Some s \<longleftrightarrow>
           (\<exists>i < length ss. ss ! i = s \<and>
              truthy (start_time s) \<and> truthy (end_time s) \<and>
              in_closed (current_seconds now) s \<and>
              (\<forall>j < i. \<not> (truthy (start_time (ss ! j)) \<and> truthy (end_time (ss ! j)) \<and>
                           in_closed (current_seconds now) (ss ! j))))) \<and>
         (get_current_session (Some sch) now = None \<longleftrightarrow>
           (\<forall>x \<in> set ss. \<not> (truthy (start_time x) \<and> truthy (end_time x) \<and>
                           in_closed (current_seconds now) x)))"
  using assms
  by (simp add: get_current_session_def scan_sessions_Some_iff scan_sessions_None_iff
      session_matches_closed)

theorem get_current_session_closed_first_match_witness:
  "sessions morning_schedule (day_name (monday_at 10 0 0)) = Some [morning_session] \<and>
   in_closed (current_seconds (monday_at 10 0 0)) morning_session \<and>
   get_current_session (Some morning_schedule) (monday_at 10 0 0) = Some morning_session"
proof -
  have h: "sessions morning_schedule (day_name (monday_at 10 0 0)) = Some [morning_session]"
    by (simp add: morning_schedule_def monday_at_def)
  have c: "in_closed (current_seconds (monday_at 10 0 0)) morning_session"
    by (simp add: in_closed_def extended_end_def morning_session_def time_eval)
  have t: "truthy (start_time morning_session) \<and> truthy (end_time morning_session)"
    by (simp add: morning_session_def)
  have "\<exists>i < length [morning_session]. [morning_session] ! i = morning_session \<and>
      truthy (start_time morning_session) \<and> truthy (end_time morning_session) \<and>
      in_closed (current_seconds (monday_at 10 0 0)) morning_session \<and>
      (\<forall>j < i. \<not> (truthy (start_time ([morning_session] ! j)) \<and>
                   truthy (end_time ([morning_session] ! j)) \<and>
                   in_closed (current_seconds (monday_at 10 0 0)) ([morning_session] ! j)))"
    using c t by (intro exI [of _ 0]) simp
  with get_current_session_closed_first_match [OF h, of morning_session]
  have "get_current_session (Some morning_schedule) (monday_at 10 0 0) = Some morning_session"
    by blast
  with h c show ?thesis by simp
qed

section \<open>Properties of the retrying file operations\<close>

lemma sleep_simps [simp]:
  "files (sleep d w) = files w"
  "lock_oracle (sleep d w) = lock_oracle w"
  "accesses (sleep d w) = accesses w"
  "trace (sleep d w) = trace w @ [Sleep d]"
  "procs (sleep d w) = procs w"
  "upload_oracle (sleep d w) = upload_oracle w"
  by (simp_all add: sleep_def log_event_def)

lemma count_access_simps [simp]:
  "files (count_access w) = files w"
  "lock_oracle (count_access w) = lock_oracle w"
  "accesses (count_access w) = Suc (accesses w)"
  "trace (count_access w) = trace w"
  "procs (count_access w) = procs w"
  "upload_oracle (count_access w) = upload_oracle w"
  "clock (count_access w) = clock w"
  by (simp_all add: count_access_def)


lemma backoff_0 [simp]: "backoff cfg b a 0 = []"
  by (simp add: backoff_def)

lemma backoff_Suc: "backoff cfg b a (Suc n) = Sleep (retry_delay cfg b a) # backoff cfg b (Suc a) n"
  by (simp add: backoff_def upt_rec)

lemma unlock_loop_all_locked:
  assumes "\<forall>i < n. access_fails p (w\<lparr>accesses := accesses w + i\<rparr>)"
  shows "fst (unlock_loop cfg p b a n w) = False \<and>
         trace (snd (unlock_loop cfg p b a n w)) = trace w @ backoff cfg b a n \<and>
         files (snd (unlock_loop cfg p b a n w)) = files w \<and>
         lock_oracle (snd (unlock_loop cfg p b a n w)) = lock_oracle w \<and>
         accesses (snd (unlock_loop cfg p b a n w)) = accesses w + n"
  using assms
proof (induction n arbitrary: a w)
  case 0
  show ?case by simp
next
  case (Suc n)
  let ?w1 = "sleep (retry_delay cfg b a) (count_access w)"
  from Suc.prems have now: "access_fails p w"
    by (auto simp: access_fails_def dest: spec [of _ 0])
  have later: "\<forall>i < n. access_fails p (?w1\<lparr>accesses := accesses ?w1 + i\<rparr>)"
  proof (intro allI impI)
    fix i assume "i < n"
    then have "Suc i < Suc n" by simp
    with Suc.prems have "access_fails p (w\<lparr>accesses := accesses w + Suc i\<rparr>)" by blast
    then show "access_fails p (?w1\<lparr>accesses := accesses ?w1 + i\<rparr>)"
      by (simp add: access_fails_def)
  qed
  from Suc.IH [OF later, of "Suc a"] now show ?case
    by (simp add: is_file_locked_def backoff_Suc)
qed

lemma unlock_loop_first_free:
  assumes "j < n"
    and "\<forall>i < j. access_fails p (w\<lparr>accesses := accesses w + i\<rparr>)"
    and "\<not> access_fails p (w\<lparr>accesses := accesses w + j\<rparr>)"
  shows "fst (unlock_loop cfg p b a n w) = True \<and>
         trace (snd (unlock_loop cfg p b a n w)) = trace w @ backoff cfg b a j \<and>
         files (snd (unlock_loop cfg p b a n w)) = files w \<and>
         lock_oracle (snd (unlock_loop cfg p b a n w)) = lock_oracle w \<and>
         accesses (snd (unlock_loop cfg p b a n w)) = accesses w + Suc j"
  using assms
proof (induction n arbitrary: a w j)
  case 0
  then show ?case by simp
next
  case (Suc n)
  show ?case
  proof (cases j)
    case 0
    with Suc.prems(3) have "\<not> access_fails p w" by (simp add: access_fails_def)
    with 0 show ?thesis by (simp add: is_file_locked_def)
  next
    case (Suc k)
    let ?w1 = "sleep (retry_delay cfg b a) (count_access w)"
    from Suc Suc.prems(2) have now: "access_fails p w"
      by (auto simp: access_fails_def dest: spec [of _ 0])
    have k: "k < n" using Suc Suc.prems(1) by simp
    have later: "\<forall>i < k. access_fails p (?w1\<lparr>accesses := accesses ?w1 + i\<rparr>)"
    proof (intro allI impI)
      fix i assume "i < k"
      then have "Suc i < j" using Suc by simp
      with Suc.prems(2) have "access_fails p (w\<lparr>accesses := accesses w + Suc i\<rparr>)" by blast
      then show "access_fails p (?w1\<lparr>accesses := accesses ?w1 + i\<rparr>)"
        by (simp add: access_fails_def)
    qed
    have free: "\<not> access_fails p (?w1\<lparr>accesses := accesses ?w1 + k\<rparr>)"
      using Suc.prems(3) Suc by (simp add: access_fails_def)
    from Suc.IH [OF k later free, of "Suc a"] now Suc show ?thesis
      by (simp add: is_file_locked_def backoff_Suc)
  qed
qed


lemma backoff_map: "backoff cfg b 0 n = map (\<lambda>i. Sleep (min (b * 2 ^ i) (max_retry_delay cfg))) [0..<n]"
  by (simp add: backoff_def retry_delay_def)

lemma access_fails_shift [simp]:
  "access_fails p (w\<lparr>accesses := k\<rparr>) = (files w p = None \<or> lock_oracle w p k)"
  by (simp add: access_fails_def)

text \<open>
  Claim C5. For a file that exists: when each of the \<open>max_retries\<close> attempts of
  \<open>_wait_for_file_unlock\<close> finds it locked, the wait returns false, having slept
  \<open>min(base_delay * 2^attempt, max_delay)\<close> after attempt 0, 1, ... in this order; when
  attempt \<open>j\<close> is the first to find it free, the wait returns true after the first
  \<open>j\<close> of these sleeps. So \<open>_safe_file_delete\<close> on a file that never becomes
  unlocked returns the error "Cannot delete locked file" after the
  \<open>max_file_access_retries\<close> sleeps, calls \<open>os.remove\<close> not once, and leaves the
  files as they were.
\<close>

theorem file_unlock_backoff_and_locked_delete:
  assumes "files w p \<noteq> None"
  shows "((\<forall>i < n. lock_oracle w p (accesses w + i)) \<longrightarrow>
            fst (wait_for_file_unlock cfg p (Some n) (Some b) w) = False \<and>
            trace (snd (wait_for_file_unlock cfg p (Some n) (Some b) w)) =
              trace w @ map (\<lambda>i. Sleep (min (b * 2 ^ i) (max_retry_delay cfg))) [0..<n]) \<and>
         (\<forall>j < n. (\<forall>i < j. lock_oracle w p (accesses w + i)) \<and>
                   \<not> lock_oracle w p (accesses w + j) \<longrightarrow>
            fst (wait_for_file_unlock cfg p (Some n) (Some b) w) = True \<and>
            trace (snd (wait_for_file_unlock cfg p (Some n) (Some b) w)) =
              trace w @ map (\<lambda>i. Sleep (min (b * 2 ^ i) (max_retry_delay cfg))) [0..<j]) \<and>
         ((\<forall>i. lock_oracle w p i) \<longrightarrow>
            fst (safe_file_delete cfg p w) = (False, ''Cannot delete locked file: '' @ p) \<and>
            files (snd (safe_file_delete cfg p w)) = files w \<and>
            trace (snd (safe_file_delete cfg p w)) =
              trace w @ map (\<lambda>i. Sleep (min (base_retry_delay cfg * 2 ^ i) (max_retry_delay cfg)))
                          [0..<max_file_access_retries cfg])"
proof (intro conjI allI impI)
  assume "\<forall>i < n. lock_oracle w p (accesses w + i)"
  then have "\<forall>i < n. access_fails p (w\<lparr>accesses := accesses w + i\<rparr>)" by simp
  from unlock_loop_all_locked [OF this, of cfg b 0] assms
  show "fst (wait_for_file_unlock cfg p (Some n) (Some b) w) = False"
    and "trace (snd (wait_for_file_unlock cfg p (Some n) (Some b) w)) =
              trace w @ map (\<lambda>i. Sleep (min (b * 2 ^ i) (max_retry_delay cfg))) [0..<n]"
    by (simp_all add: wait_for_file_unlock_def path_exists_def backoff_map)
next
  fix j
  assume j: "j < n"
    and "(\<forall>i < j. lock_oracle w p (accesses w + i)) \<and> \<not> lock_oracle w p (accesses w + j)"
  with assms have a: "\<forall>i < j. access_fails p (w\<lparr>accesses := accesses w + i\<rparr>)"
    and f: "\<not> access_fails p (w\<lparr>accesses := accesses w + j\<rparr>)" by simp_all
  from unlock_loop_first_free [OF j a f, of cfg b 0] assms
  show "fst (wait_for_file_unlock cfg p (Some n) (Some b) w) = True"
    and "trace (snd (wait_for_file_unlock cfg p (Some n) (Some b) w)) =
              trace w @ map (\<lambda>i. Sleep (min (b * 2 ^ i) (max_retry_delay cfg))) [0..<j]"
    by (simp_all add: wait_for_file_unlock_def path_exists_def backoff_map)
next
  assume "\<forall>i. lock_oracle w p i"
  then have "\<forall>i < max_file_access_retries cfg. access_fails p (w\<lparr>accesses := accesses w + i\<rparr>)"
    by simp
  from unlock_loop_all_locked [OF this, of cfg "base_retry_delay cfg" 0] assms
  have u: "fst (wait_for_file_unlock cfg p None None w) = False"
    "trace (snd (wait_for_file_unlock cfg p None None w)) =
       trace w @ backoff cfg (base_retry_delay cfg) 0 (max_file_access_retries cfg)"
    "files (snd (wait_for_file_unlock cfg p None None w)) = files w"
    by (simp_all add: wait_for_file_unlock_def path_exists_def)
  from u(1) assms have d: "safe_file_delete cfg p w =
      ((False, ''Cannot delete locked file: '' @ p), snd (wait_for_file_unlock cfg p None None w))"
    by (simp add: safe_file_delete_def path_exists_def split_def)
  show "fst (safe_file_delete cfg p w) = (False, ''Cannot delete locked file: '' @ p)"
    by (simp add: d)
  show "files (snd (safe_file_delete cfg p w)) = files w"
    by (simp add: d u(3))
  show "trace (snd (safe_file_delete cfg p w)) =
              trace w @ map (\<lambda>i. Sleep (min (base_retry_delay cfg * 2 ^ i) (max_retry_delay cfg)))
                          [0..<max_file_access_retries cfg]"
    by (simp add: d u(2) backoff_map)
qed

theorem file_unlock_backoff_and_locked_delete_witness:
  "files stuck_env ''rec.mp3'' \<noteq> None \<and>
   fst (wait_for_file_unlock default_config ''rec.mp3'' (Some 3) (Some (1 / 2)) stuck_env) = False \<and>
   trace (snd (wait_for_file_unlock default_config ''rec.mp3'' (Some 3) (Some (1 / 2)) stuck_env)) =
     [Sleep (1 / 2), Sleep 1, Sleep 2] \<and>
   fst (wait_for_file_unlock default_config ''rec.mp3'' (Some 3) (Some (1 / 2))
          (stuck_env\<lparr>lock_oracle := (\<lambda>p n. n < 1)\<rparr>)) = True \<and>
   fst (safe_file_delete default_config ''rec.mp3'' stuck_env) =
     (False, ''Cannot delete locked file: rec.mp3'') \<and>
   files (snd (safe_file_delete default_config ''rec.mp3'' stuck_env)) ''rec.mp3'' = Some ''audio'' \<and>
   sleeps_of (trace (snd (safe_file_delete default_config ''rec.mp3'' stuck_env))) =
     [1 / 2, 1, 2, 4, 8, 16, 30, 30, 30, 30]"
proof -
  have e: "files stuck_env ''rec.mp3'' \<noteq> None"
    by (simp add: stuck_env_def)
  have e': "files (stuck_env\<lparr>lock_oracle := (\<lambda>p n. n < 1)\<rparr>) ''rec.mp3'' \<noteq> None"
    by (simp add: stuck_env_def)
  have l: "\<forall>i. lock_oracle stuck_env ''rec.mp3'' i"
    by (simp add: stuck_env_def)
  have up: "[0..<10] = [0, 1, 2, 3, 4, 5, 6, 7, 8, 9::nat]" "[0..<3] = [0, 1, 2::nat]"
    by (simp_all add: upt_rec)
  note t = file_unlock_backoff_and_locked_delete [OF e, of 3 default_config "1 / 2"]
  note t' = file_unlock_backoff_and_locked_delete [OF e', of 3 default_config "1 / 2"]
  have a: "fst (wait_for_file_unlock default_config ''rec.mp3'' (Some 3) (Some (1 / 2)) stuck_env) = False"
    "trace (snd (wait_for_file_unlock default_config ''rec.mp3'' (Some 3) (Some (1 / 2)) stuck_env)) =
     [Sleep (1 / 2), Sleep 1, Sleep 2]"
    using t l by (simp_all add: up stuck_env_def default_config_def)
  have b: "fst (wait_for_file_unlock default_config ''rec.mp3'' (Some 3) (Some (1 / 2))
          (stuck_env\<lparr>lock_oracle := (\<lambda>p n. n < 1)\<rparr>)) = True"
    using t' [THEN conjunct2, THEN conjunct1, rule_format, of 1]
    by (simp add: stuck_env_def)
  have c: "fst (safe_file_delete default_config ''rec.mp3'' stuck_env) =
     (False, ''Cannot delete locked file: rec.mp3'')"
    "files (snd (safe_file_delete default_config ''rec.mp3'' stuck_env)) ''rec.mp3'' = Some ''audio''"
    "sleeps_of (trace (snd (safe_file_delete default_config ''rec.mp3'' stuck_env))) =
     [1 / 2, 1, 2, 4, 8, 16, 30, 30, 30, 30]"
    using t l by (simp_all add: up stuck_env_def default_config_def)
  from e a b c show ?thesis by simp
qed

section \<open>What the file operations leave alone\<close>

lemma growsI: "trace w' = trace w @ es \<Longrightarrow> list_all P es \<Longrightarrow> grows P w w'"
  by (simp add: grows_def new_events_def)

lemma growsD: "grows P w w' \<Longrightarrow> trace w' = trace w @ new_events w w' \<and> list_all P (new_events w w')"
proof -
  assume g: "grows P w w'"
  have "trace w' = take (length (trace w)) (trace w') @ drop (length (trace w)) (trace w')"
    by simp
  with g show ?thesis by (simp add: grows_def new_events_def)
qed

lemma grows_refl [simp]: "grows P w w"
  by (rule growsI [of _ _ "[]"]) simp_all

lemma grows_trans: "grows P w w1 \<Longrightarrow> grows P w1 w2 \<Longrightarrow> grows P w w2"
proof -
  assume a: "grows P w w1" and b: "grows P w1 w2"
  from growsD [OF a] growsD [OF b]
  have "trace w2 = trace w @ (new_events w w1 @ new_events w1 w2)"
    and "list_all P (new_events w w1 @ new_events w1 w2)" by simp_all
  then show ?thesis by (rule growsI)
qed

lemma grows_mono: "grows P w w' \<Longrightarrow> (\<And>e. P e \<Longrightarrow> Q e) \<Longrightarrow> grows Q w w'"
  by (auto simp: grows_def list_all_iff)

lemma grows_log: "P e \<Longrightarrow> grows P w (log_event e w)"
  by (rule growsI [of _ _ "[e]"]) (simp_all add: log_event_def)

lemma grows_sleep: "P (Sleep d) \<Longrightarrow> grows P w (sleep d w)"
  by (rule growsI [of _ _ "[Sleep d]"]) simp_all

lemma grows_count_access [simp]: "grows P w (count_access w)"
  by (rule growsI [of _ _ "[]"]) simp_all

lemma log_event_simps [simp]:
  "files (log_event e w) = files w"
  "lock_oracle (log_event e w) = lock_oracle w"
  "accesses (log_event e w) = accesses w"
  "trace (log_event e w) = trace w @ [e]"
  "procs (log_event e w) = procs w"
  "upload_oracle (log_event e w) = upload_oracle w"
  "clock (log_event e w) = clock w"
  by (simp_all add: log_event_def)

text \<open>The unlock wait and the read only sleep and count accesses.\<close>

lemma unlock_loop_quiet:
  "files (snd (unlock_loop cfg p b a n w)) = files w \<and>
   upload_oracle (snd (unlock_loop cfg p b a n w)) = upload_oracle w \<and>
   lock_oracle (snd (unlock_loop cfg p b a n w)) = lock_oracle w \<and>
   grows is_sleep w (snd (unlock_loop cfg p b a n w))"
proof (induction n arbitrary: a w)
  case 0
  show ?case by simp
next
  case (Suc n)
  let ?w1 = "sleep (retry_delay cfg b a) (count_access w)"
  have "grows is_sleep w ?w1"
    by (rule grows_trans [OF grows_count_access grows_sleep]) simp
  with Suc.IH [of "Suc a" ?w1] show ?case
    by (auto simp: is_file_locked_def intro: grows_trans)
qed

lemma wait_for_file_unlock_quiet:
  "files (snd (wait_for_file_unlock cfg p mr bd w)) = files w \<and>
   upload_oracle (snd (wait_for_file_unlock cfg p mr bd w)) = upload_oracle w \<and>
   lock_oracle (snd (wait_for_file_unlock cfg p mr bd w)) = lock_oracle w \<and>
   grows is_sleep w (snd (wait_for_file_unlock cfg p mr bd w))"
  by (simp add: wait_for_file_unlock_def Let_def unlock_loop_quiet)

lemma read_loop_quiet:
  "files (snd (read_loop cfg p a n w)) = files w \<and>
   upload_oracle (snd (read_loop cfg p a n w)) = upload_oracle w \<and>
   lock_oracle (snd (read_loop cfg p a n w)) = lock_oracle w \<and>
   grows is_sleep w (snd (read_loop cfg p a n w)) \<and>
   (fst (read_loop cfg p a n w) = None \<or> fst (read_loop cfg p a n w) = files w p)"
proof (induction n arbitrary: a w)
  case 0
  show ?case by simp
next
  case (Suc n)
  let ?w1 = "sleep (retry_delay cfg (base_retry_delay cfg) a) (count_access w)"
  have "grows is_sleep w ?w1"
    by (rule grows_trans [OF grows_count_access grows_sleep]) simp
  with Suc.IH [of "Suc a" ?w1] show ?case
    by (auto intro: grows_trans)
qed

lemma safe_file_read_quiet:
  "files (snd (safe_file_read cfg p w)) = files w \<and>
   upload_oracle (snd (safe_file_read cfg p w)) = upload_oracle w \<and>
   lock_oracle (snd (safe_file_read cfg p w)) = lock_oracle w \<and>
   grows is_sleep w (snd (safe_file_read cfg p w))"
proof -
  let ?u = "wait_for_file_unlock cfg p None None w"
  let ?r = "read_loop cfg p 0 (max_file_access_retries cfg) (snd ?u)"
  note u = wait_for_file_unlock_quiet [of cfg p None None w]
  note r = read_loop_quiet [of cfg p 0 "max_file_access_retries cfg" "snd ?u"]
  have g: "grows is_sleep w (snd ?r)"
    using u r by (blast intro: grows_trans)
  show ?thesis
    using u r g
    by (auto simp: safe_file_read_def split_def Let_def split: option.splits)
qed

text \<open>A successful read returns the content of the file, which is not empty.\<close>

lemma safe_file_read_success:
  assumes "fst (fst (safe_file_read cfg p w))"
  shows "\<exists>c. files w p = Some c \<and> c \<noteq> [] \<and>
             fst (safe_file_read cfg p w) = (True, Some c, ''Success'')"
proof -
  let ?u = "wait_for_file_unlock cfg p None None w"
  let ?r = "read_loop cfg p 0 (max_file_access_retries cfg) (snd ?u)"
  note u = wait_for_file_unlock_quiet [of cfg p None None w]
  note r = read_loop_quiet [of cfg p 0 "max_file_access_retries cfg" "snd ?u"]
  from assms obtain c where c: "files w p = Some c" "c \<noteq> []"
    by (auto simp: safe_file_read_def path_exists_def getsize_def split: if_splits)
  from assms c have "fst ?r \<noteq> None"
    by (auto simp: safe_file_read_def path_exists_def getsize_def split_def Let_def
        split: if_splits option.splits)
  with r u c have "fst ?r = Some c" by auto
  with assms c show ?thesis
    by (auto simp: safe_file_read_def path_exists_def getsize_def split_def Let_def
        split: if_splits option.splits)
qed

lemma is_sleep_no_cancel: "is_sleep e \<Longrightarrow> no_cancel e"
  by (cases e) (simp_all add: no_cancel_def)


text \<open>The delete only sleeps, counts accesses and calls \<open>os.remove\<close>.\<close>

lemma delete_loop_quiet:
  "upload_oracle (snd (delete_loop cfg p a n w)) = upload_oracle w \<and>
   grows no_cancel w (snd (delete_loop cfg p a n w))"
proof (induction n arbitrary: a w)
  case 0
  show ?case by simp
next
  case (Suc n)
  let ?w0 = "log_event (RemoveFile p) w"
  let ?w1 = "sleep (retry_delay cfg (base_retry_delay cfg) a) (count_access ?w0)"
  have g0: "grows no_cancel w ?w0"
    by (rule grows_log) (simp add: no_cancel_def)
  have "grows no_cancel ?w0 ?w1"
    by (rule grows_trans [OF grows_count_access grows_sleep]) (simp add: no_cancel_def)
  with g0 have g1: "grows no_cancel w ?w1" by (rule grows_trans)
  have g2: "grows no_cancel w (count_access (?w0\<lparr>files := (files ?w0)(p := None)\<rparr>))"
    by (rule growsI [of _ _ "[RemoveFile p]"]) (simp_all add: no_cancel_def)
  from Suc.IH [of "Suc a" ?w1] g1 g2 show ?case
    by (auto simp: Let_def intro: grows_trans)
qed

lemma safe_file_delete_quiet:
  "upload_oracle (snd (safe_file_delete cfg p w)) = upload_oracle w \<and>
   grows no_cancel w (snd (safe_file_delete cfg p w))"
proof -
  let ?u = "wait_for_file_unlock cfg p None None w"
  let ?r = "delete_loop cfg p 0 (max_file_access_retries cfg) (snd ?u)"
  note u = wait_for_file_unlock_quiet [of cfg p None None w]
  note r = delete_loop_quiet [of cfg p 0 "max_file_access_retries cfg" "snd ?u"]
  have gu: "grows no_cancel w (snd ?u)"
    using u by (blast intro: grows_mono is_sleep_no_cancel)
  with r have g: "grows no_cancel w (snd ?r)"
    by (blast intro: grows_trans)
  show ?thesis
    using u r g gu
    by (auto simp: safe_file_delete_def split_def Let_def split: bool.splits)
qed

section \<open>Properties of the finalization\<close>

lemma terminal_set_failed [simp]: "terminal (set_failed msg t m r)"
  by (simp add: terminal_def set_failed_def)

lemma set_failed_fields [simp]:
  "recording_status (set_failed msg t m r) = ''failed''"
  "error_message (set_failed msg t m r) = Some msg"
  "actual_end_time (set_failed msg t m r) = Some t"
  "duration_minutes (set_failed msg t m r) = Some (py_round m 1)"
  "recording_file_path (set_failed msg t m r) = recording_file_path r"
  by (simp_all add: set_failed_def)

text \<open>The finalization, branch by branch.\<close>

lemma finalize_no_row:
  "rows (cap_recording_id cap) = None \<Longrightarrow> finalize_recording cfg cap rows w = (rows, w)"
  by (simp add: finalize_recording_def)

lemma finalize_not_found:
  assumes "rows (cap_recording_id cap) = Some r" and "\<not> path_exists (cap_file_path cap) w"
  shows "finalize_recording cfg cap rows w =
    (rows(cap_recording_id cap \<mapsto>
       set_failed ''Recording file not found'' (clock w)
         (minutes_between (cap_start_time cap) (clock w)) r),
     log_event (Commit (cap_recording_id cap))
       (log_event (SetStatus (cap_recording_id cap) ''failed'') w))"
  using assms by (simp add: finalize_recording_def Let_def)

lemma finalize_empty:
  assumes "rows (cap_recording_id cap) = Some r" and "path_exists (cap_file_path cap) w"
    and "getsize (cap_file_path cap) w = 0"
  shows "finalize_recording cfg cap rows w =
    (rows(cap_recording_id cap \<mapsto>
       set_failed ''Recording file is empty (0 bytes)'' (clock w)
         (minutes_between (cap_start_time cap) (clock w)) r),
     log_event (Commit (cap_recording_id cap))
       (log_event (SetStatus (cap_recording_id cap) ''failed'') w))"
  using assms by (simp add: finalize_recording_def Let_def)

lemma finalize_read_failed:
  assumes "rows (cap_recording_id cap) = Some r" and "path_exists (cap_file_path cap) w"
    and "getsize (cap_file_path cap) w \<noteq> 0"
    and "\<not> fst (fst (safe_file_read cfg (cap_file_path cap) w))"
  shows "finalize_recording cfg cap rows w =
    (rows(cap_recording_id cap \<mapsto>
       (set_failed (''File read error: '' @ snd (snd (fst (safe_file_read cfg (cap_file_path cap) w))))
          (clock w) (minutes_between (cap_start_time cap) (clock w)) r)
       \<lparr>recording_file_path := Some (cap_file_path cap)\<rparr>),
     log_event (Commit (cap_recording_id cap))
       (log_event (SetStatus (cap_recording_id cap) ''failed'')
          (snd (safe_file_read cfg (cap_file_path cap) w))))"
  using assms by (simp add: finalize_recording_def Let_def split_def split: option.splits)

lemma finalize_upload_failed:
  assumes "rows (cap_recording_id cap) = Some r"
    and "fst (safe_file_read cfg (cap_file_path cap) w) = (True, Some c, m)" and "c \<noteq> []"
    and "files w (cap_file_path cap) = Some c"
    and "upload_oracle w (basename (cap_file_path cap)) c = Inl err"
  shows "finalize_recording cfg cap rows w =
    (rows(cap_recording_id cap \<mapsto>
       (set_failed (''File upload error: '' @ err)
          (clock w) (minutes_between (cap_start_time cap) (clock w)) r)
       \<lparr>recording_file_path := Some (cap_file_path cap)\<rparr>),
     log_event (Commit (cap_recording_id cap))
       (log_event (SetStatus (cap_recording_id cap) ''failed'')
          (log_event (UploadFile (basename (cap_file_path cap)))
             (snd (safe_file_read cfg (cap_file_path cap) w)))))"
  using assms safe_file_read_quiet [of cfg "cap_file_path cap" w]
  by (simp add: finalize_recording_def Let_def split_def path_exists_def getsize_def)

lemma finalize_upload_ok:
  assumes "rows (cap_recording_id cap) = Some r"
    and "fst (safe_file_read cfg (cap_file_path cap) w) = (True, Some c, m)" and "c \<noteq> []"
    and "files w (cap_file_path cap) = Some c"
    and "upload_oracle w (basename (cap_file_path cap)) c = Inr (saved, url)"
  shows "finalize_recording cfg cap rows w =
    (rows(cap_recording_id cap \<mapsto>
       r\<lparr>recording_status := ''completed'', actual_end_time := Some (clock w),
         recording_file_path := Some saved, recording_file_url := Some url,
         file_size_mb := Some (py_round (of_nat (length c) / (1024 * 1024)) 2),
         duration_minutes := Some (py_round (minutes_between (cap_start_time cap) (clock w)) 1),
         error_message := None\<rparr>),
     log_event (Commit (cap_recording_id cap))
       (snd (safe_file_delete cfg (cap_file_path cap)
          (log_event (SetStatus (cap_recording_id cap) ''completed'')
            (log_event (UploadFile (basename (cap_file_path cap)))
               (snd (safe_file_read cfg (cap_file_path cap) w)))))))"
  using assms safe_file_read_quiet [of cfg "cap_file_path cap" w]
  by (simp add: finalize_recording_def Let_def split_def path_exists_def getsize_def)





subsection \<open>The upload\<close>






section \<open>Properties of the stop path\<close>

lemma new_events_trans:
  assumes "grows P w w1" and "grows Q w1 w2"
  shows "new_events w w2 = new_events w w1 @ new_events w1 w2"
proof -
  define e1 where "e1 = new_events w w1"
  define e2 where "e2 = new_events w1 w2"
  from growsD [OF assms(1)] growsD [OF assms(2)]
  have "trace w2 = trace w @ (e1 @ e2)" by (simp add: e1_def e2_def)
  then have "new_events w w2 = e1 @ e2" by (simp add: new_events_def)
  then show ?thesis by (simp add: e1_def e2_def)
qed

lemma ex_updI: "terminal x \<Longrightarrow> \<exists>r'. rows(k \<mapsto> x) = rows(k \<mapsto> r') \<and> terminal r'"
  by blast

lemma grows_top [simp]: "grows (\<lambda>e. True) w w' = (take (length (trace w)) (trace w') = trace w)"
  by (simp add: grows_def list_all_iff)

subsection \<open>Stopping the process\<close>

lemma set_exited_trace [simp]: "trace (set_exited pid w) = trace w"
  by (simp add: set_exited_def)

lemma terminate_process_grows: "grows no_cancel w (terminate_process pid w)"
proof -
  have "grows no_cancel w (log_event (SignalTerm pid) w)"
    by (rule grows_log) (simp add: no_cancel_def)
  moreover have "grows no_cancel w (set_exited pid (log_event (SignalTerm pid) w))"
    by (rule growsI [of _ _ "[SignalTerm pid]"]) (simp_all add: no_cancel_def)
  ultimately show ?thesis by (simp add: terminate_process_def Let_def)
qed

lemma force_kill_process_grows: "grows no_cancel w (force_kill_process pid w)"
proof -
  have "grows no_cancel w (log_event (SignalKill pid) w)"
    by (rule grows_log) (simp add: no_cancel_def)
  moreover have "grows no_cancel w (set_exited pid (log_event (SignalKill pid) w))"
    by (rule growsI [of _ _ "[SignalKill pid]"]) (simp_all add: no_cancel_def)
  ultimately show ?thesis by (simp add: force_kill_process_def Let_def)
qed

lemma sleep_grows_no_cancel: "grows no_cancel w (sleep d w)"
  by (rule grows_sleep) (simp add: no_cancel_def)

lemma wait_for_process_cleanup_grows:
  "grows no_cancel w (snd (wait_for_process_cleanup cfg pid w))"
  by (simp add: wait_for_process_cleanup_def sleep_grows_no_cancel)

lemma terminate_and_wait_grows: "grows no_cancel w (terminate_and_wait cfg pid w)"
proof -
  let ?w1 = "terminate_process pid w"
  let ?w2 = "snd (wait_for_process_cleanup cfg pid ?w1)"
  let ?w3 = "sleep (if is_windows cfg then windows_file_delay cfg else 1) (force_kill_process pid ?w2)"
  have g2: "grows no_cancel w ?w2"
    by (rule grows_trans [OF terminate_process_grows wait_for_process_cleanup_grows])
  have "grows no_cancel ?w2 ?w3"
    by (rule grows_trans [OF force_kill_process_grows sleep_grows_no_cancel])
  with g2 have g3: "grows no_cancel w ?w3" by (rule grows_trans)
  from g2 g3 show ?thesis
    by (simp add: terminate_and_wait_def Let_def split_def)
qed

subsection \<open>The finalization as a whole\<close>

lemma finalize_summary:
  "grows no_cancel w (snd (finalize_recording cfg cap rows w)) \<and>
   (case rows (cap_recording_id cap) of
      None \<Rightarrow> fst (finalize_recording cfg cap rows w) = rows
    | Some r \<Rightarrow> \<exists>r'. fst (finalize_recording cfg cap rows w) =
                      rows(cap_recording_id cap \<mapsto> r') \<and> terminal r')"
proof (cases "rows (cap_recording_id cap)")
  case None
  then show ?thesis by (simp add: finalize_no_row)
next
  case (Some r)
  let ?p = "cap_file_path cap" and ?rid = "cap_recording_id cap"
  let ?w1 = "snd (safe_file_read cfg ?p w)"
  have logs: "\<And>v st. grows no_cancel v (log_event (Commit ?rid) (log_event (SetStatus ?rid st) v))"
    by (rule growsI [of _ _ "[SetStatus ?rid st, Commit ?rid]" for v st]) (simp_all add: no_cancel_def)
  have g1: "grows no_cancel w ?w1"
    using safe_file_read_quiet [of cfg ?p w] by (blast intro: grows_mono is_sleep_no_cancel)
  have "grows no_cancel w (snd (finalize_recording cfg cap rows w)) \<and>
        (\<exists>r'. fst (finalize_recording cfg cap rows w) = rows(?rid \<mapsto> r') \<and> terminal r')"
  proof (cases "path_exists ?p w")
    case False
    from finalize_not_found [where rows = rows and cap = cap and r = r, OF Some False] logs
    show ?thesis by (auto intro!: ex_updI)
  next
    case True
    note ex = this
    show ?thesis
    proof (cases "getsize ?p w = 0")
      case True
      from finalize_empty [where rows = rows and cap = cap and r = r, OF Some ex True] logs
      show ?thesis by (auto intro!: ex_updI)
    next
      case False
      note size = this
      from ex size obtain c where c: "files w ?p = Some c" "c \<noteq> []"
        by (auto simp: path_exists_def getsize_def)
      show ?thesis
      proof (cases "fst (fst (safe_file_read cfg ?p w))")
        case False
        from finalize_read_failed [where rows = rows and cap = cap and r = r,
            OF Some ex size False] grows_trans [OF g1 logs]
        show ?thesis by (auto intro!: ex_updI simp: terminal_def)
      next
        case True
        from safe_file_read_success [OF True] c
        have rd: "fst (safe_file_read cfg ?p w) = (True, Some c, ''Success'')" by simp
        let ?w2 = "log_event (UploadFile (basename ?p)) ?w1"
        have g2: "grows no_cancel w ?w2"
          by (rule grows_trans [OF g1 grows_log]) (simp add: no_cancel_def)
        show ?thesis
        proof (cases "upload_oracle w (basename ?p) c")
          case (Inl err)
          from finalize_upload_failed [where rows = rows and cap = cap and r = r,
              OF Some rd c(2) c(1) Inl] grows_trans [OF g2 logs]
          show ?thesis by (auto intro!: ex_updI simp: terminal_def)
        next
          case (Inr pu)
          obtain saved url where pu: "pu = (saved, url)" by (cases pu)
          let ?w3 = "log_event (SetStatus ?rid ''completed'') ?w2"
          let ?w4 = "snd (safe_file_delete cfg ?p ?w3)"
          have g3: "grows no_cancel w ?w3"
            by (rule grows_trans [OF g2 grows_log]) (simp add: no_cancel_def)
          have g4: "grows no_cancel w ?w4"
            using safe_file_delete_quiet [of cfg ?p ?w3] g3 by (blast intro: grows_trans)
          have "grows no_cancel w (log_event (Commit ?rid) ?w4)"
            by (rule grows_trans [OF g4 grows_log]) (simp add: no_cancel_def)
          with finalize_upload_ok [where rows = rows and cap = cap and r = r,
              OF Some rd c(2) c(1) Inr [unfolded pu]]
          show ?thesis by (auto intro!: ex_updI simp: terminal_def)
        qed
      qed
    qed
  qed
  with Some show ?thesis by simp
qed

lemma finalize_grows: "grows no_cancel w (snd (finalize_recording cfg cap rows w))"
  using finalize_summary [of w cfg cap rows] by simp


lemma finalize_keeps_rows:
  "rows rid \<noteq> None \<Longrightarrow> fst (finalize_recording cfg cap rows w) rid \<noteq> None"
  using finalize_summary [of w cfg cap rows]
  by (auto split: option.splits if_splits)

lemma finalize_makes_terminal:
  "rows (cap_recording_id cap) \<noteq> None \<Longrightarrow>
   terminal_at (fst (finalize_recording cfg cap rows w)) (cap_recording_id cap)"
  using finalize_summary [of w cfg cap rows]
  by (auto simp: terminal_at_def split: option.splits)

subsection \<open>One call of the stop action\<close>

lemma map_of_filter_self: "map_of (filter (\<lambda>kv. fst kv \<noteq> k) xs) k = None"
  by (induction xs) auto


lemma filter_absent: "map_of xs k = None \<Longrightarrow> filter (\<lambda>kv. fst kv \<noteq> k) xs = xs"
  by (induction xs) (auto split: if_splits)

lemma stop_session_recording_absent:
  "map_of (recording_processes s) k = None \<Longrightarrow> stop_session_recording k s = s"
  by (simp add: stop_session_recording_def)

lemma stop_session_recording_present:
  assumes "map_of (recording_processes s) k = Some cap"
  shows "stop_session_recording k s =
     s\<lparr>record_store :=
         fst (finalize_recording (settings s) cap (record_store s)
                (terminate_and_wait (settings s) (cap_process cap) (world s))),
       world :=
         log_event (Finalized k)
           (snd (finalize_recording (settings s) cap (record_store s)
                   (terminate_and_wait (settings s) (cap_process cap) (world s)))),
       recording_processes := filter (\<lambda>kv. fst kv \<noteq> k) (recording_processes s)\<rparr>"
  using assms by (simp add: stop_session_recording_def Let_def split_def)

lemma stop_session_recording_frame:
  "recording_processes (stop_session_recording k s) =
     filter (\<lambda>kv. fst kv \<noteq> k) (recording_processes s) \<and>
   station_tasks (stop_session_recording k s) = station_tasks s \<and>
   settings (stop_session_recording k s) = settings s"
proof (cases "map_of (recording_processes s) k")
  case None
  then show ?thesis by (simp add: stop_session_recording_absent filter_absent)
next
  case (Some cap)
  then show ?thesis by (simp add: stop_session_recording_present)
qed



lemma stop_session_recording_keeps_rows:
  "record_store s rid \<noteq> None \<Longrightarrow> record_store (stop_session_recording k s) rid \<noteq> None"
  by (cases "map_of (recording_processes s) k")
     (simp_all add: stop_session_recording_absent stop_session_recording_present
        finalize_keeps_rows)

lemma stop_session_recording_finalizes:
  assumes "map_of (recording_processes s) k = Some cap"
  shows "Finalized k \<in> set (new_events (world s) (world (stop_session_recording k s)))"
    and "record_store s (cap_recording_id cap) \<noteq> None \<Longrightarrow>
         terminal_at (record_store (stop_session_recording k s)) (cap_recording_id cap)"
proof -
  let ?w3 = "terminate_and_wait (settings s) (cap_process cap) (world s)"
  let ?w4 = "snd (finalize_recording (settings s) cap (record_store s) ?w3)"
  have g: "grows no_cancel (world s) ?w4"
    by (rule grows_trans [OF terminate_and_wait_grows finalize_grows])
  have g': "grows no_cancel ?w4 (log_event (Finalized k) ?w4)"
    by (rule grows_log) (simp add: no_cancel_def)
  have "new_events ?w4 (log_event (Finalized k) ?w4) = [Finalized k]"
    by (simp add: new_events_def)
  with new_events_trans [OF g g']
  show "Finalized k \<in> set (new_events (world s) (world (stop_session_recording k s)))"
    by (simp add: stop_session_recording_present [OF assms])
  assume "record_store s (cap_recording_id cap) \<noteq> None"
  then show "terminal_at (record_store (stop_session_recording k s)) (cap_recording_id cap)"
    by (simp add: stop_session_recording_present [OF assms] finalize_makes_terminal)
qed

subsection \<open>The stop action over a list of keys\<close>




lemma fold_stop_keeps_rows:
  "record_store s rid \<noteq> None \<Longrightarrow>
   record_store (fold stop_session_recording ks s) rid \<noteq> None"
proof (induction ks arbitrary: s)
  case Nil
  then show ?case by simp
next
  case (Cons k ks)
  from Cons.IH [OF stop_session_recording_keeps_rows [OF Cons.prems]]
  show ?case by simp
qed


subsection \<open>Cancelling the tasks when no capture is active\<close>



subsection \<open>Stopping twice, and the shutdown\<close>

text \<open>
  Claim C8. A second call of \<open>_stop_session_recording\<close> for the same key returns the
  state that the first call left: the first call has removed the key from the table, so
  the second returns at its first test, with no finalization, no event, and the
  records and the table as they were.
\<close>

theorem stop_session_recording_twice:
  "map_of (recording_processes (stop_session_recording k s)) k = None \<and>
   stop_session_recording k (stop_session_recording k s) = stop_session_recording k s"
proof -
  have "map_of (recording_processes (stop_session_recording k s)) k = None"
    using stop_session_recording_frame [of k s] by (simp add: map_of_filter_self)
  then show ?thesis by (simp add: stop_session_recording_absent)
qed

theorem stop_session_recording_twice_witness:
  "terminal_at (record_store (stop_session_recording ''st1_20240101_0900'' svc0)) ''r1'' \<and>
   stop_session_recording ''st1_20240101_0900'' (stop_session_recording ''st1_20240101_0900'' svc0) =
     stop_session_recording ''st1_20240101_0900'' svc0"
proof -
  have m: "map_of (recording_processes svc0) ''st1_20240101_0900'' = Some cap0"
    by (simp add: svc0_def)
  have r: "record_store svc0 (cap_recording_id cap0) \<noteq> None"
    by (simp add: svc0_def cap0_def)
  from stop_session_recording_finalizes(2) [OF m r]
  have "terminal_at (record_store (stop_session_recording ''st1_20240101_0900'' svc0)) ''r1''"
    by (simp add: cap0_def)
  with stop_session_recording_twice [of "''st1_20240101_0900''" svc0] show ?thesis
    by simp
qed




text \<open>The trace of the example: the finalization ends before the task is cancelled.\<close>

lemma stop_example_trace:
  "trace (world (stop svc0)) =
     [UploadFile ''rec.mp3'', SetStatus ''r1'' ''completed'', RemoveFile ''rec.mp3'',
      Commit ''r1'', Finalized ''st1_20240101_0900'', CancelTask ''st1'']"
  by code_simp

section \<open>Properties of the preflight validation\<close>

lemma validate_system_errors:
  "errors (validate_system m p) =
     map Msg (os_prereq_errors p) @
     (if \<not> fst (ffmpeg_result p)
      then [Msg (''FFmpeg validation failed: '' @ fst (snd (ffmpeg_result p)))] else []) @
     (if \<not> storage_success p
      then [Msg (''Storage validation failed: '' @ storage_error p)] else []) @
     (if \<not> fst (db_result p)
      then [Msg (''Database validation failed: '' @ snd (db_result p))] else []) @
     (if \<not> permissions_success p
      then [Msg (''File permissions validation failed: '' @ permissions_error p)] else []) @
     (if cpu_count p = None then [Msg ''Validation exception: TypeError''] else [])"
  by (simp add: validate_system_def Let_def split: option.splits)

lemma validate_system_valid_iff:
  "is_valid (validate_system m p) \<longleftrightarrow>
     os_prereq_errors p = [] \<and> hard_checks_pass p \<and> cpu_count p \<noteq> None"
  by (auto simp: validate_system_def Let_def hard_checks_pass_def split: option.splits)

lemma validate_system_low_disk:
  assumes "storage_success p" and "storage_available_gb p < m"
  shows "LowDiskSpace (storage_available_gb p) m \<in> set (warnings (validate_system m p))"
  using assms by (simp add: validate_system_def Let_def split: option.splits)

lemma validate_system_low_memory:
  assumes "memory_gb p < 1"
  shows "LowMemory (memory_gb p) \<in> set (warnings (validate_system m p))"
  using assms by (simp add: validate_system_def Let_def split: option.splits)

text \<open>
  Claim C9. When the FFmpeg check, the storage check, the database check or the file
  permission check fails, the result of \<open>validate_system\<close> is invalid, with an error
  in its list, and \<open>validate_and_start\<close> raises \<open>SystemExit\<close> without starting the
  service. When these four checks pass (and the OS checks report no error and the CPU
  count is known), the result is valid and the service is started, whatever the free
  disk space and the memory are: disk space below the configured minimum and memory
  below 1 GB each add one warning.
\<close>

theorem preflight_hard_and_soft_failures:
  "(\<not> hard_checks_pass p \<longrightarrow>
      \<not> is_valid (validate_system m p) \<and> errors (validate_system m p) \<noteq> [] \<and>
      validate_and_start m p s = Inl (SystemExit ''System validation failed - see report above'')) \<and>
   (hard_checks_pass p \<and> os_prereq_errors p = [] \<and> cpu_count p \<noteq> None \<longrightarrow>
      is_valid (validate_system m p) \<and> errors (validate_system m p) = [] \<and>
      (\<exists>s'. validate_and_start m p s = Inr s' \<and> is_validated s' \<and> start_called s') \<and>
      (storage_available_gb p < m \<longrightarrow>
         LowDiskSpace (storage_available_gb p) m \<in> set (warnings (validate_system m p))) \<and>
      (memory_gb p < 1 \<longrightarrow>
         LowMemory (memory_gb p) \<in> set (warnings (validate_system m p))))"
proof (intro conjI impI)
  assume h: "\<not> hard_checks_pass p"
  then show nv: "\<not> is_valid (validate_system m p)"
    by (simp add: validate_system_valid_iff)
  from h show "errors (validate_system m p) \<noteq> []"
    by (auto simp: validate_system_errors hard_checks_pass_def)
  from nv show "validate_and_start m p s =
      Inl (SystemExit ''System validation failed - see report above'')"
    by (simp add: validate_and_start_def Let_def)
next
  assume ok: "hard_checks_pass p \<and> os_prereq_errors p = [] \<and> cpu_count p \<noteq> None"
  then show v: "is_valid (validate_system m p)"
    by (simp add: validate_system_valid_iff)
  from ok show "errors (validate_system m p) = []"
    by (auto simp: validate_system_errors hard_checks_pass_def)
  from v show "\<exists>s'. validate_and_start m p s = Inr s' \<and> is_validated s' \<and> start_called s'"
    by (simp add: validate_and_start_def Let_def)
  from ok have st: "storage_success p" by (simp add: hard_checks_pass_def)
  show "LowDiskSpace (storage_available_gb p) m \<in> set (warnings (validate_system m p))"
    if "storage_available_gb p < m"
    using st that by (rule validate_system_low_disk)
  show "LowMemory (memory_gb p) \<in> set (warnings (validate_system m p))"
    if "memory_gb p < 1"
    using that by (rule validate_system_low_memory)
qed

theorem preflight_hard_and_soft_failures_witness:
  "\<not> hard_checks_pass (good_probes\<lparr>ffmpeg_result := (False, ''FFmpeg not found'', '''')\<rparr>) \<and>
   validate_and_start 5 (good_probes\<lparr>ffmpeg_result := (False, ''FFmpeg not found'', '''')\<rparr>)
     fresh_orchestrator = Inl (SystemExit ''System validation failed - see report above'') \<and>
   hard_checks_pass (good_probes\<lparr>storage_available_gb := 2, memory_gb := 1 / 2\<rparr>) \<and>
   is_valid (validate_system 5 (good_probes\<lparr>storage_available_gb := 2, memory_gb := 1 / 2\<rparr>)) \<and>
   warnings (validate_system 5 (good_probes\<lparr>storage_available_gb := 2, memory_gb := 1 / 2\<rparr>)) =
     [LowDiskSpace 2 5, LowMemory (1 / 2)]"
proof -
  let ?bad = "good_probes\<lparr>ffmpeg_result := (False, ''FFmpeg not found'', '''')\<rparr>"
  let ?low = "good_probes\<lparr>storage_available_gb := 2, memory_gb := 1 / 2\<rparr>"
  have b: "\<not> hard_checks_pass ?bad"
    by (simp add: hard_checks_pass_def)
  have l: "hard_checks_pass ?low \<and> os_prereq_errors ?low = [] \<and> cpu_count ?low \<noteq> None"
    by (simp add: hard_checks_pass_def good_probes_def)
  have w: "warnings (validate_system 5 ?low) = [LowDiskSpace 2 5, LowMemory (1 / 2)]"
    by (simp add: validate_system_def good_probes_def Let_def)
  from preflight_hard_and_soft_failures [of ?bad 5 fresh_orchestrator] b
  have 1: "validate_and_start 5 ?bad fresh_orchestrator =
      Inl (SystemExit ''System validation failed - see report above'')"
    by blast
  from preflight_hard_and_soft_failures [of ?low 5 fresh_orchestrator] l
  have 2: "is_valid (validate_system 5 ?low)"
    by blast
  from b 1 l 2 w show ?thesis by simp
qed

end
